theory Spec2Isabelle
  imports Main "HOL-Library.AList" "HOL-Library.Word"
begin

section \<open>Data model\<close>

text \<open>
  The provision assembler of the CPU advisor (package \<open>provisionassembler\<close>,
  \<open>AssembleProvision\<close> and \<open>getNumasReservedForReclaim\<close>).

  A Go map is an association list with its entries in the order the runtime iterates
  them; writes go through \<open>AList.update\<close>, reads through \<open>map_of\<close>. Every
  theorem below holds for every such order.
\<close>

text \<open>Go's \<open>int\<close> has 64 bits on the platforms of the agent: a CPU count is a
  \<open>64 word\<close>, whose \<open>+\<close> and \<open>-\<close> wrap around as Go's do; \<open>sint\<close> reads
  the integer a word stands for, and \<open><s\<close> compares as Go compares its signed
  integers. NUMA ids are \<open>int\<close>: the program compares and sorts them, and never
  computes with them.\<close>

type_synonym GoInt = "64 word"

text \<open>Modelled from the spec: \<open>machine.CPUSet\<close> is not among the sources. It is
  "a set of NUMA ids", given here by the ids it holds; \<open>ToSliceInt\<close> lists them in
  ascending order, each once.\<close>

type_synonym CPUSet = "int list"

definition ToSliceInt :: "CPUSet \<Rightarrow> int list" where
  "ToSliceInt s = sort (remdups s)"

text \<open>Modelled from the spec: \<open>types.PodSet\<close> is not among the sources. It is the
  "set of workload identifiers currently assigned", each pod UID with its container
  names; \<open>Pods()\<close> is the size check, the number of pods.\<close>

type_synonym PodSet = "(string \<times> string list) list"

definition Pods :: "PodSet \<Rightarrow> nat" where
  "Pods ps = length ps"

text \<open>Modelled from the spec: \<open>PodSet.PopAny\<close> is not among the sources. The spec
  asks for "an explicit size check followed by direct element access" with "no
  destructive pop semantics": the first pod and its first container are returned with
  \<open>ok = True\<close>, the empty set gives \<open>ok = False\<close>, and the pod set handed back
  (second component) is the one received.\<close>

definition PopAny :: "PodSet \<Rightarrow> (string \<times> string \<times> bool) \<times> PodSet" where
  "PopAny ps =
     (case ps of
        [] \<Rightarrow> (([], [], False), ps)
      | (podUID, containers) # _ \<Rightarrow>
          ((podUID, (case containers of [] \<Rightarrow> [] | c # _ \<Rightarrow> c), True), ps))"

text \<open>Errors. \<open>GetProvision\<close> and \<open>helper.PodEnableReclaim\<close> hand back errors of
  their own, which the assembler passes on as they are; the assembler itself builds one
  error, with \<open>fmt.Errorf\<close>, from the offending pod set.\<close>

datatype error =
    ExternalError string
  | InvalidRegionAssignment PodSet

text \<open>Modelled from the spec: the region types and knob names of package \<open>types\<close>
  are not among the sources. A region has "\<open>Type \<in> {Share, Isolation,
  DedicatedNumaExclusive}\<close> (other types may exist)"; the knobs are
  \<open>NonReclaimedCPUSize\<close>, \<open>NonReclaimedCPUSizeUpper\<close> and
  \<open>NonReclaimedCPUSizeLower\<close>.\<close>

datatype QoSRegionType =
    QoSRegionTypeShare
  | QoSRegionTypeIsolation
  | QoSRegionTypeDedicatedNumaExclusive
  | QoSRegionTypeOther

datatype ControlKnobName =
    ControlKnobNonReclaimedCPUSize
  | ControlKnobNonReclaimedCPUSizeUpper
  | ControlKnobNonReclaimedCPUSizeLower

text \<open>Modelled from the spec: \<open>types.ControlKnob\<close> is not among the sources. It is
  "a mapping from knob kind to a numeric value". The model stores what the source reads,
  \<open>int(controlKnob[name].Value)\<close>; a name that is absent reads as the zero value.\<close>

type_synonym ControlKnob = "(ControlKnobName \<times> GoInt) list"

definition knobValue :: "ControlKnob \<Rightarrow> ControlKnobName \<Rightarrow> GoInt" where
  "knobValue controlKnob n = (case map_of controlKnob n of None \<Rightarrow> 0 | Some v \<Rightarrow> v)"

text \<open>Modelled from the spec: \<open>region.QoSRegion\<close> is an interface whose
  implementations are not among the sources. A region is given by what each method that
  the assembler calls returns during the call.\<close>

record QoSRegion =
  Name :: string
  Type :: QoSRegionType
  OwnerPoolName :: string
  GetBindingNumas :: CPUSet
  GetPods :: PodSet
  GetProvision :: "error + ControlKnob"

text \<open>Modelled from the spec: \<open>types.InternalCPUCalculationResult\<close> is not among the
  sources. It is "a mapping from pool name to a mapping from NUMA id to CPU count, plus
  a capture timestamp". The zero value has no pool entries (a nil map reads as an empty
  one) and the zero time.\<close>

record InternalCPUCalculationResult =
  PoolEntries :: "(string \<times> (int \<times> GoInt) list) list"
  TimeStamp :: nat

definition zeroResult :: InternalCPUCalculationResult where
  "zeroResult = \<lparr>PoolEntries = [], TimeStamp = 0\<rparr>"

text \<open>Modelled from the spec: \<open>SetPoolEntry\<close> is not among the sources. A pool entry
  is "a triple (pool name, NUMA id, integer CPU count)"; writing one stores the count
  under the pool name and the NUMA id, over whatever was there.\<close>

definition SetPoolEntry ::
  "InternalCPUCalculationResult \<Rightarrow> string \<Rightarrow> int \<Rightarrow> GoInt \<Rightarrow> InternalCPUCalculationResult" where
  "SetPoolEntry r poolName numaID poolSize =
     r\<lparr>PoolEntries :=
         AList.update poolName
           (AList.update numaID poolSize
              (case map_of (PoolEntries r) poolName of None \<Rightarrow> [] | Some m \<Rightarrow> m))
           (PoolEntries r)\<rparr>"

text \<open>Reading \<open>PoolEntries[poolName][numaID]\<close>, with \<open>None\<close> for an absent entry.\<close>

definition poolEntry :: "InternalCPUCalculationResult \<Rightarrow> string \<Rightarrow> int \<Rightarrow> GoInt option" where
  "poolEntry r poolName numaID =
     (case map_of (PoolEntries r) poolName of None \<Rightarrow> None | Some m \<Rightarrow> map_of m numaID)"

text \<open>A Go map holds a key once: every pool name once, and under it every NUMA id
  once.\<close>

definition distinctEntries :: "InternalCPUCalculationResult \<Rightarrow> bool" where
  "distinctEntries r \<longleftrightarrow>
     distinct (map fst (PoolEntries r)) \<and> (\<forall>(p, m)\<in>set (PoolEntries r). distinct (map fst m))"

text \<open>Modelled from the spec: the constants of packages \<open>state\<close> and \<open>cpuadvisor\<close>
  are not among the sources. The spec's scenarios name the pools \<open>reserve\<close> and
  \<open>reclaim\<close>; the node-wide sentinel is a reserved id that no NUMA node has.\<close>

definition PoolNameReserve :: string where
  "PoolNameReserve = ''reserve''"

definition PoolNameReclaim :: string where
  "PoolNameReclaim = ''reclaim''"

definition FakedNUMAID :: int where
  "FakedNUMAID = - 1"

text \<open>Modelled from the spec: \<open>MetaReader.GetPoolSize(poolName) \<rightarrow> (int, found)\<close> is
  an interface whose implementation is not among the sources. The reader holds the sizes
  of the pools it knows; an unknown pool gives the zero size and \<open>found = False\<close>.\<close>

type_synonym MetaReader = "(string \<times> GoInt) list"

definition GetPoolSize :: "MetaReader \<Rightarrow> string \<Rightarrow> GoInt \<times> bool" where
  "GetPoolSize metaReader poolName =
     (case map_of metaReader poolName of None \<Rightarrow> (0, False) | Some n \<Rightarrow> (n, True))"

text \<open>Modelled from the spec: \<open>helper.PodEnableReclaim(ctx, metaServer, podUID,
  nodeEnableReclaim)\<close> is not among the sources. It is an "external policy lookup,
  given the node-level default", which may fail: the meta server is the function that
  answers it.\<close>

type_synonym MetaServer = "string \<Rightarrow> bool \<Rightarrow> error + bool"

definition PodEnableReclaim :: "MetaServer \<Rightarrow> string \<Rightarrow> bool \<Rightarrow> error + bool" where
  "PodEnableReclaim metaServer podUID nodeEnableReclaim = metaServer podUID nodeEnableReclaim"

text \<open>\<open>ProvisionAssemblerCommon\<close>: the receiver. \<open>EnableReclaim\<close> is
  \<open>conf.GetDynamicConfiguration().EnableReclaim\<close>, \<open>clock\<close> what \<open>time.Now()\<close>
  reads during the call; the pointer fields are given by what they point to.\<close>

record ProvisionAssemblerCommon =
  EnableReclaim :: bool
  regionMap :: "(string \<times> QoSRegion) list"
  reservedForReclaim :: "(int \<times> GoInt) list"
  numaAvailable :: "(int \<times> GoInt) list"
  nonBindingNumas :: CPUSet
  metaReader :: MetaReader
  metaServer :: MetaServer
  clock :: nat

section \<open>Helpers\<close>

text \<open>\<open>getNumasReservedForReclaim\<close>: the loop adds the reservation of every id of
  the set that the map holds.\<close>

definition getNumasReservedForReclaim :: "ProvisionAssemblerCommon \<Rightarrow> CPUSet \<Rightarrow> GoInt" where
  "getNumasReservedForReclaim pa numas =
     fold (\<lambda>id res. case map_of (reservedForReclaim pa) id of Some v \<Rightarrow> res + v | None \<Rightarrow> res)
       (ToSliceInt numas) 0"

text \<open>Modelled from the spec: \<open>getNumasAvailableResource\<close> is not among the sources.
  It is the spec's \<open>sumAvailable\<close>, a "lookup-and-sum" over the ids of the set,
  "treating missing ids as zero".\<close>

definition getNumasAvailableResource :: "(int \<times> GoInt) list \<Rightarrow> CPUSet \<Rightarrow> GoInt" where
  "getNumasAvailableResource numaAvailableMap numas =
     fold (\<lambda>numaID res. res + (case map_of numaAvailableMap numaID of Some v \<Rightarrow> v | None \<Rightarrow> 0))
       (ToSliceInt numas) 0"

text \<open>Modelled from the spec: \<open>general.MergeMapInt\<close> and \<open>general.SumUpMapValues\<close>
  are not among the sources. Merging copies the first map and then writes every entry
  of the second one; summing adds up the values, in the arithmetic of the values (for
  the program's maps that of \<open>GoInt\<close>, which wraps).\<close>

definition MergeMapInt :: "(string \<times> 'a) list \<Rightarrow> (string \<times> 'a) list \<Rightarrow> (string \<times> 'a) list" where
  "MergeMapInt src override = fold (\<lambda>(k, v) res. AList.update k v res) override src"

definition SumUpMapValues :: "(string \<times> 'a::monoid_add) list \<Rightarrow> 'a" where
  "SumUpMapValues m = sum_list (map snd m)"

section \<open>The pool size regulator\<close>

text \<open>The regulator as \<open>AssembleProvision\<close> calls it: the Go function rewrites the
  map it is given and returns the flag; here it returns the rewritten map and the flag.\<close>

type_synonym Regulator = "(string \<times> GoInt) list \<Rightarrow> GoInt \<Rightarrow> bool \<Rightarrow> (string \<times> GoInt) list \<times> bool"

text \<open>Modelled from the spec: sizes are "never negative"; a negative demand counts as
  none.\<close>

definition clampSize :: "int \<Rightarrow> int" where
  "clampSize n = max n 0"

text \<open>Modelled from the spec: "the largest remaining pool", the first one among equals.\<close>

fun largestPool :: "(string \<times> int) list \<Rightarrow> (string \<times> int) option" where
  "largestPool [] = None"
| "largestPool ((k, v) # rest) =
     (case largestPool rest of
        None \<Rightarrow> Some (k, v)
      | Some (k', v') \<Rightarrow> if v' > v then Some (k', v') else Some (k, v))"

text \<open>Modelled from the spec: the "rounding remainder assigned deterministically" to
  one pool.\<close>

fun addToPool :: "string \<Rightarrow> int \<Rightarrow> (string \<times> int) list \<Rightarrow> (string \<times> int) list" where
  "addToPool k n [] = []"
| "addToPool k n ((k', v) # rest) =
     (if k = k' then (k', v + n) # rest else (k', v) # addToPool k n rest)"

text \<open>Modelled from the spec: the "proportional scale-down preserving relative
  shares, floored to non-negative integers", the remainder going to the largest pool.
  Nothing is handed out when nothing is available or nothing is demanded.\<close>

definition scaleDown :: "(string \<times> int) list \<Rightarrow> int \<Rightarrow> (string \<times> int) list" where
  "scaleDown demand available =
     (let total = sum_list (map (\<lambda>(k, v). clampSize v) demand)
      in if total = 0 \<or> available \<le> 0 then map (\<lambda>(k, v). (k, 0)) demand
         else
           (let scaled = map (\<lambda>(k, v). (k, clampSize v * available div total)) demand;
                remainder = available - SumUpMapValues scaled
            in case largestPool demand of
                 None \<Rightarrow> scaled
               | Some (k, v) \<Rightarrow> addToPool k remainder scaled))"

text \<open>Modelled from the spec: \<open>regulatePoolSizes\<close> is not among the sources. The
  spec's policy, which the spec states over the integers (\<open>demand: name \<rightarrow> int\<close>): "if
  total demand \<le> available, return demand unchanged with \<open>boundUpper = true\<close>"; if it
  exceeds \<open>available\<close>, the sizes are reduced and \<open>boundUpper = false\<close>.\<close>

definition regulatePoolSizes ::
  "(string \<times> int) list \<Rightarrow> int \<Rightarrow> bool \<Rightarrow> (string \<times> int) list \<times> bool" where
  "regulatePoolSizes poolSizes available enableReclaim =
     (if SumUpMapValues poolSizes \<le> available then (poolSizes, True)
      else (scaleDown poolSizes available, False))"

text \<open>A map of Go integers read as the integers they stand for, and a map of integers
  stored as Go integers.\<close>

definition intSizes :: "(string \<times> GoInt) list \<Rightarrow> (string \<times> int) list" where
  "intSizes m = map (\<lambda>(k, v). (k, sint v)) m"

definition goSizes :: "(string \<times> int) list \<Rightarrow> (string \<times> GoInt) list" where
  "goSizes m = map (\<lambda>(k, v). (k, word_of_int v)) m"

text \<open>Modelled from the spec: the spec's regulator at the program's call (line 141),
  where the sizes are Go integers: each size is read as the integer it stands for, the
  spec's policy is applied, and the regulated sizes are stored back.\<close>

definition regulatePoolSizes64 :: Regulator where
  "regulatePoolSizes64 poolSizes available enableReclaim =
     (case regulatePoolSizes (intSizes poolSizes) (sint available) enableReclaim of
        (regulated, boundUpper) \<Rightarrow> (goSizes regulated, boundUpper))"

section \<open>The provision assembler\<close>

text \<open>The variables of \<open>AssembleProvision\<close> that the loop over the regions
  updates.\<close>

record loopState =
  calculationResult :: InternalCPUCalculationResult
  shares :: GoInt
  isolationUppers :: GoInt
  sharePoolSizes :: "(string \<times> GoInt) list"
  isolationUpperSizes :: "(string \<times> GoInt) list"
  isolationLowerSizes :: "(string \<times> GoInt) list"

text \<open>How a piece of the body ends: it goes on with the variables, returns an error,
  or panics (an index out of range is a run-time panic, not a returned error).\<close>

datatype 'a flow = Cont 'a | Stop error | Panic

text \<open>What a call of \<open>AssembleProvision\<close> gives its caller: the three returned
  values, or a panic.\<close>

datatype outcome =
    Returned InternalCPUCalculationResult bool "error option"
  | Panicked

text \<open>Lines 68 to 84: the result with the reserve entry, and the empty totals and
  maps. The second value of \<open>GetPoolSize\<close> is dropped.\<close>

definition initState :: "ProvisionAssemblerCommon \<Rightarrow> loopState" where
  "initState pa =
     (let calculationResult = \<lparr>PoolEntries = [], TimeStamp = clock pa\<rparr>;
          reservePoolSize = fst (GetPoolSize (metaReader pa) PoolNameReserve)
      in \<lparr>calculationResult =
            SetPoolEntry calculationResult PoolNameReserve FakedNUMAID reservePoolSize,
          shares = 0, isolationUppers = 0,
          sharePoolSizes = [], isolationUpperSizes = [], isolationLowerSizes = []\<rparr>)"

text \<open>Lines 87 to 133: the body of the loop for one region. Beside the flow it gives
  the region as the body leaves it: the only call on the region that could change it is
  \<open>PopAny\<close> on its pod set.\<close>

definition regionStep ::
  "ProvisionAssemblerCommon \<Rightarrow> loopState \<Rightarrow> QoSRegion \<Rightarrow> loopState flow \<times> QoSRegion" where
  "regionStep pa st r =
     (case GetProvision r of
        Inl err \<Rightarrow> (Stop err, r)
      | Inr controlKnob \<Rightarrow>
          (case Type r of
             QoSRegionTypeShare \<Rightarrow>
               (let poolSize = knobValue controlKnob ControlKnobNonReclaimedCPUSize
                in (Cont (st\<lparr>sharePoolSizes := AList.update (OwnerPoolName r) poolSize (sharePoolSizes st),
                              shares := shares st + poolSize\<rparr>), r))
           | QoSRegionTypeIsolation \<Rightarrow>
               (let upper = knobValue controlKnob ControlKnobNonReclaimedCPUSizeUpper;
                    lower = knobValue controlKnob ControlKnobNonReclaimedCPUSizeLower
                in (Cont (st\<lparr>isolationUpperSizes := AList.update (Name r) upper (isolationUpperSizes st),
                              isolationLowerSizes := AList.update (Name r) lower (isolationLowerSizes st),
                              isolationUppers := isolationUppers st + upper\<rparr>), r))
           | QoSRegionTypeDedicatedNumaExclusive \<Rightarrow>
               (case ToSliceInt (GetBindingNumas r) of
                  [] \<Rightarrow> (Panic, r)
                | regionNuma # _ \<Rightarrow>
                    (let reserved = getNumasReservedForReclaim pa (GetBindingNumas r);
                         podSet = GetPods r
                     in if Pods podSet \<noteq> 1 then (Stop (InvalidRegionAssignment podSet), r)
                        else
                          (case PopAny podSet of
                             ((podUID, _, _), podSet') \<Rightarrow>
                               (let r' = r\<lparr>GetPods := podSet'\<rparr>
                                in case PodEnableReclaim (metaServer pa) podUID (EnableReclaim pa) of
                                     Inl err \<Rightarrow> (Stop err, r')
                                   | Inr enableReclaim \<Rightarrow>
                                       if \<not> enableReclaim then
                                         (if 0 <s reserved
                                          then (Cont (st\<lparr>calculationResult :=
                                                  SetPoolEntry (calculationResult st) PoolNameReclaim regionNuma reserved\<rparr>), r')
                                          else (Cont st, r'))
                                       else
                                         (let available = getNumasAvailableResource (numaAvailable pa) (GetBindingNumas r);
                                              nonReclaimRequirement = knobValue controlKnob ControlKnobNonReclaimedCPUSize;
                                              reclaimed = available - nonReclaimRequirement + reserved
                                          in (Cont (st\<lparr>calculationResult :=
                                                SetPoolEntry (calculationResult st) PoolNameReclaim regionNuma reclaimed\<rparr>), r'))))))
           | QoSRegionTypeOther \<Rightarrow> (Cont st, r)))"

text \<open>Line 86: the loop, over the entries of the region map in the order the runtime
  ranges over them. It ends at the first region whose body does not go on. The second
  value is the region map as the loop leaves it.\<close>

fun loopRegions ::
  "ProvisionAssemblerCommon \<Rightarrow> loopState \<Rightarrow> (string \<times> QoSRegion) list \<Rightarrow>
     loopState flow \<times> (string \<times> QoSRegion) list" where
  "loopRegions pa st [] = (Cont st, [])"
| "loopRegions pa st ((k, r) # rest) =
     (case regionStep pa st r of
        (Cont st', r') \<Rightarrow>
          (case loopRegions pa st' rest of (f, rest') \<Rightarrow> (f, (k, r') # rest'))
      | (Stop err, r') \<Rightarrow> (Stop err, (k, r') # rest)
      | (Panic, r') \<Rightarrow> (Panic, (k, r') # rest))"

text \<open>Lines 136 to 140: the capacity of the non-binding NUMA nodes, and the demand that
  is handed to the regulator.\<close>

definition shareAndIsolatedPoolAvailable :: "ProvisionAssemblerCommon \<Rightarrow> GoInt" where
  "shareAndIsolatedPoolAvailable pa =
     getNumasAvailableResource (numaAvailable pa) (nonBindingNumas pa)"

definition shareAndIsolatePoolSizes :: "ProvisionAssemblerCommon \<Rightarrow> loopState \<Rightarrow> (string \<times> GoInt) list" where
  "shareAndIsolatePoolSizes pa st =
     (if shareAndIsolatedPoolAvailable pa <s shares st + isolationUppers st
      then MergeMapInt (sharePoolSizes st) (isolationLowerSizes st)
      else MergeMapInt (sharePoolSizes st) (isolationUpperSizes st))"

text \<open>Lines 148 to 163: the regulated sizes become node-wide entries, and then the
  node-wide reclaim entry is written.\<close>

definition fillPoolEntries ::
  "ProvisionAssemblerCommon \<Rightarrow> InternalCPUCalculationResult \<Rightarrow> (string \<times> GoInt) list \<Rightarrow>
     InternalCPUCalculationResult" where
  "fillPoolEntries pa cr regulated =
     (let cr' = fold (\<lambda>(poolName, poolSize) c. SetPoolEntry c poolName FakedNUMAID poolSize) regulated cr;
          reclaimPoolSizeOfNonBindingNumas =
            (if EnableReclaim pa
             then shareAndIsolatedPoolAvailable pa - SumUpMapValues regulated
                    + getNumasReservedForReclaim pa (nonBindingNumas pa)
             else getNumasReservedForReclaim pa (nonBindingNumas pa))
      in SetPoolEntry cr' PoolNameReclaim FakedNUMAID reclaimPoolSizeOfNonBindingNumas)"

text \<open>\<open>AssembleProvision\<close>, with the regulator it calls as a parameter. The second
  value is the receiver as the call leaves it.\<close>

definition AssembleProvision ::
  "Regulator \<Rightarrow> ProvisionAssemblerCommon \<Rightarrow> outcome \<times> ProvisionAssemblerCommon" where
  "AssembleProvision regulate pa =
     (case loopRegions pa (initState pa) (regionMap pa) of
        (Panic, regions) \<Rightarrow> (Panicked, pa\<lparr>regionMap := regions\<rparr>)
      | (Stop err, regions) \<Rightarrow>
          (Returned zeroResult False (Some err), pa\<lparr>regionMap := regions\<rparr>)
      | (Cont st, regions) \<Rightarrow>
          (case regulate (shareAndIsolatePoolSizes pa st) (shareAndIsolatedPoolAvailable pa)
                  (EnableReclaim pa) of
             (regulated, boundUpper) \<Rightarrow>
               (Returned (fillPoolEntries pa (calculationResult st) regulated) boundUpper None,
                pa\<lparr>regionMap := regions\<rparr>)))"

text \<open>The size a region's provision gives for a knob, for stating totals over the
  regions (\<open>0\<close> where the region has no provision).\<close>

definition regionKnob :: "QoSRegion \<Rightarrow> ControlKnobName \<Rightarrow> GoInt" where
  "regionKnob r n = (case GetProvision r of Inl err \<Rightarrow> 0 | Inr controlKnob \<Rightarrow> knobValue controlKnob n)"

text \<open>What the loop collects, for stating it over the regions: the sizes the share
  regions give their owner pools and the sizes the isolation regions give themselves, in
  the order of the loop (where a name comes twice the loop keeps the size written last);
  and the total of the share sizes and the isolation upper sizes as integers, without
  the wrap-around of \<open>GoInt\<close>.\<close>

definition shareSizesOf :: "(string \<times> QoSRegion) list \<Rightarrow> (string \<times> GoInt) list" where
  "shareSizesOf rs =
     map (\<lambda>(k, r). (OwnerPoolName r, regionKnob r ControlKnobNonReclaimedCPUSize))
       (filter (\<lambda>(k, r). Type r = QoSRegionTypeShare) rs)"

definition isolationSizesOf :: "ControlKnobName \<Rightarrow> (string \<times> QoSRegion) list \<Rightarrow> (string \<times> GoInt) list" where
  "isolationSizesOf n rs =
     map (\<lambda>(k, r). (Name r, regionKnob r n)) (filter (\<lambda>(k, r). Type r = QoSRegionTypeIsolation) rs)"

definition demandTotal :: "(string \<times> QoSRegion) list \<Rightarrow> int" where
  "demandTotal rs =
     (\<Sum>(k, r)\<leftarrow>rs. if Type r = QoSRegionTypeShare then sint (regionKnob r ControlKnobNonReclaimedCPUSize)
                     else if Type r = QoSRegionTypeIsolation then sint (regionKnob r ControlKnobNonReclaimedCPUSizeUpper)
                     else 0)"

section \<open>Example snapshots\<close>

text \<open>A meta server that enables reclaim for \<open>pod-on\<close>, disables it for
  \<open>pod-off\<close>, fails for \<open>pod-lost\<close> and answers the node's setting otherwise.\<close>

definition exMetaServer :: MetaServer where
  "exMetaServer podUID nodeEnableReclaim =
     (if podUID = ''pod-on'' then Inr True
      else if podUID = ''pod-off'' then Inr False
      else if podUID = ''pod-lost'' then Inl (ExternalError ''pod not found'')
      else Inr nodeEnableReclaim)"

definition exRegion ::
  "string \<Rightarrow> QoSRegionType \<Rightarrow> string \<Rightarrow> CPUSet \<Rightarrow> PodSet \<Rightarrow> error + ControlKnob \<Rightarrow> QoSRegion" where
  "exRegion n t owner numas pods provision =
     \<lparr>Name = n, Type = t, OwnerPoolName = owner, GetBindingNumas = numas,
      GetPods = pods, GetProvision = provision\<rparr>"

definition exShare :: QoSRegion where
  "exShare = exRegion ''share-region'' QoSRegionTypeShare ''share'' [] []
     (Inr [(ControlKnobNonReclaimedCPUSize, 5)])"

definition exIsolation :: QoSRegion where
  "exIsolation = exRegion ''isolation-0'' QoSRegionTypeIsolation ''isolation'' [] []
     (Inr [(ControlKnobNonReclaimedCPUSizeUpper, 4), (ControlKnobNonReclaimedCPUSizeLower, 2)])"

definition exDedicatedOn :: QoSRegion where
  "exDedicatedOn = exRegion ''dedicated-0'' QoSRegionTypeDedicatedNumaExclusive ''dedicated'' [0]
     [(''pod-on'', [''main''])] (Inr [(ControlKnobNonReclaimedCPUSize, 12)])"

definition exDedicatedOff :: QoSRegion where
  "exDedicatedOff = exRegion ''dedicated-2'' QoSRegionTypeDedicatedNumaExclusive ''dedicated'' [2]
     [(''pod-off'', [''main''])] (Inr [(ControlKnobNonReclaimedCPUSize, 6)])"

definition exDedicatedUnreserved :: QoSRegion where
  "exDedicatedUnreserved = exRegion ''dedicated-3'' QoSRegionTypeDedicatedNumaExclusive ''dedicated'' [3]
     [(''pod-off'', [''main''])] (Inr [(ControlKnobNonReclaimedCPUSize, 6)])"

definition exDedicatedLost :: QoSRegion where
  "exDedicatedLost = exRegion ''dedicated-2'' QoSRegionTypeDedicatedNumaExclusive ''dedicated'' [2]
     [(''pod-lost'', [''main''])] (Inr [(ControlKnobNonReclaimedCPUSize, 6)])"

definition exNoPods :: QoSRegion where
  "exNoPods = exRegion ''dedicated-2'' QoSRegionTypeDedicatedNumaExclusive ''dedicated'' [2]
     [] (Inr [(ControlKnobNonReclaimedCPUSize, 6)])"

definition exNoPodsBroken :: QoSRegion where
  "exNoPodsBroken = exRegion ''dedicated-2'' QoSRegionTypeDedicatedNumaExclusive ''dedicated'' [2]
     [] (Inl (ExternalError ''no provision''))"

definition exTwoPods :: QoSRegion where
  "exTwoPods = exRegion ''dedicated-2'' QoSRegionTypeDedicatedNumaExclusive ''dedicated'' [2]
     [(''pod-on'', [''main'']), (''pod-off'', [''main''])] (Inr [(ControlKnobNonReclaimedCPUSize, 6)])"

definition exUnbound :: QoSRegion where
  "exUnbound = exRegion ''dedicated-x'' QoSRegionTypeDedicatedNumaExclusive ''dedicated'' []
     [] (Inr [(ControlKnobNonReclaimedCPUSize, 6)])"

definition exBroken :: QoSRegion where
  "exBroken = exRegion ''share-broken'' QoSRegionTypeShare ''share'' [] []
     (Inl (ExternalError ''no provision''))"

definition exShareOf :: "GoInt \<Rightarrow> QoSRegion" where
  "exShareOf n = exRegion ''share-region'' QoSRegionTypeShare ''share'' [] []
     (Inr [(ControlKnobNonReclaimedCPUSize, n)])"

text \<open>A node of four NUMA nodes of ten CPUs each, NUMA node 1 being the non-binding
  one, with the given regions in the given order, reserve pool and node setting.\<close>

definition exNode :: "(string \<times> QoSRegion) list \<Rightarrow> MetaReader \<Rightarrow> bool \<Rightarrow> ProvisionAssemblerCommon" where
  "exNode regions reader enable =
     \<lparr>EnableReclaim = enable, regionMap = regions,
      reservedForReclaim = [(0, 1), (1, 1), (2, 3)],
      numaAvailable = [(0, 10), (1, 10), (2, 10), (3, 10)],
      nonBindingNumas = [1], metaReader = reader, metaServer = exMetaServer, clock = 1\<rparr>"

definition exResult :: "(string \<times> (int \<times> GoInt) list) list \<Rightarrow> InternalCPUCalculationResult" where
  "exResult entries = \<lparr>PoolEntries = entries, TimeStamp = 1\<rparr>"


text \<open>A node with the given reservations, capacities and non-binding NUMA nodes, and a
  dedicated region on NUMA node 0 with the given requirement, for sizes at the end of
  the range of \<open>GoInt\<close>.\<close>

definition exNodeOf ::
  "(int \<times> GoInt) list \<Rightarrow> (int \<times> GoInt) list \<Rightarrow> CPUSet \<Rightarrow> (string \<times> QoSRegion) list \<Rightarrow> bool \<Rightarrow>
     ProvisionAssemblerCommon" where
  "exNodeOf reserved available nonBinding regions enable =
     \<lparr>EnableReclaim = enable, regionMap = regions,
      reservedForReclaim = reserved, numaAvailable = available,
      nonBindingNumas = nonBinding, metaReader = [(''reserve'', 2)], metaServer = exMetaServer, clock = 1\<rparr>"

definition exDedicatedOnOf :: "GoInt \<Rightarrow> QoSRegion" where
  "exDedicatedOnOf n = exRegion ''dedicated-0'' QoSRegionTypeDedicatedNumaExclusive ''dedicated'' [0]
     [(''pod-on'', [''main''])] (Inr [(ControlKnobNonReclaimedCPUSize, n)])"

text \<open>Two share regions of the same owner pool with the sizes \<open>-8\<close> and
  \<open>14\<close>; and two share regions of \<open>2 ^ 62\<close> each beside the isolation region,
  whose total is beyond the range of \<open>GoInt\<close>.\<close>

definition exNegativeShares :: ProvisionAssemblerCommon where
  "exNegativeShares =
     exNode [(''share-a'', exShareOf (- 8)), (''share-b'', exShareOf 14)] [(''reserve'', 2)] True"

definition exHugeShares :: ProvisionAssemblerCommon where
  "exHugeShares =
     exNode [(''share-a'', exShareOf 4611686018427387904), (''share-b'', exShareOf 4611686018427387904),
             (''isolation-0'', exIsolation)] [(''reserve'', 2)] True"

section \<open>Basic facts about the model\<close>

subsection \<open>Pool entries, CPU sets and sums\<close>

lemma poolEntry_SetPoolEntry:
  "poolEntry (SetPoolEntry r p n v) p' n' = (if p' = p \<and> n' = n then Some v else poolEntry r p' n')"
  by (simp add: poolEntry_def SetPoolEntry_def update_conv' split: option.splits)

lemma ToSliceInt_Nil: "ToSliceInt s = [] \<longleftrightarrow> s = []"
  unfolding ToSliceInt_def
  by (metis length_0_conv length_sort remdups_eq_nil_iff)

lemma set_ToSliceInt: "set (ToSliceInt s) = set s"
  by (simp add: ToSliceInt_def)

lemma distinct_ToSliceInt: "distinct (ToSliceInt s)"
  by (simp add: ToSliceInt_def)

lemma fold_reserved:
  "fold (\<lambda>id res. case m id of Some v \<Rightarrow> res + v | None \<Rightarrow> res) xs (a::GoInt) =
     a + sum_list (map (\<lambda>id. case m id of Some v \<Rightarrow> v | None \<Rightarrow> 0) xs)"
  by (induction xs arbitrary: a) (auto split: option.splits)

lemma fold_available:
  "fold (\<lambda>id res. res + (case m id of Some v \<Rightarrow> v | None \<Rightarrow> 0)) xs (a::GoInt) =
     a + sum_list (map (\<lambda>id. case m id of Some v \<Rightarrow> v | None \<Rightarrow> 0) xs)"
  by (induction xs arbitrary: a) auto

lemma getNumasReservedForReclaim_sum:
  "getNumasReservedForReclaim pa numas =
     (\<Sum>id\<in>set numas. case map_of (reservedForReclaim pa) id of Some v \<Rightarrow> v | None \<Rightarrow> 0)"
  unfolding getNumasReservedForReclaim_def fold_reserved
  by (simp add: sum_list_distinct_conv_sum_set distinct_ToSliceInt set_ToSliceInt)

lemma getNumasAvailableResource_sum:
  "getNumasAvailableResource m numas =
     (\<Sum>id\<in>set numas. case map_of m id of Some v \<Rightarrow> v | None \<Rightarrow> 0)"
  unfolding getNumasAvailableResource_def fold_available
  by (simp add: sum_list_distinct_conv_sum_set distinct_ToSliceInt set_ToSliceInt)

lemma Pods_one: "Pods ps = 1 \<longleftrightarrow> (\<exists>podUID containers. ps = [(podUID, containers)])"
  by (cases ps) (auto simp: Pods_def)

lemma initState_entry:
  "poolEntry (calculationResult (initState pa)) p n =
     (if p = PoolNameReserve \<and> n = FakedNUMAID
      then Some (case map_of (metaReader pa) PoolNameReserve of Some v \<Rightarrow> v | None \<Rightarrow> 0)
      else None)"
  by (simp add: initState_def Let_def poolEntry_SetPoolEntry GetPoolSize_def split: option.splits)
     (simp add: poolEntry_def)

subsection \<open>The loop over the regions\<close>

lemma loopRegions_Cons_flow:
  "fst (loopRegions pa st ((k, r) # rest)) =
     (case fst (regionStep pa st r) of
        Cont st' \<Rightarrow> fst (loopRegions pa st' rest)
      | Stop e \<Rightarrow> Stop e
      | Panic \<Rightarrow> Panic)"
  by (simp split: prod.splits flow.splits)

declare loopRegions.simps(2) [simp del]
declare loopRegions_Cons_flow [simp]

lemma loopRegions_append_flow:
  "fst (loopRegions pa st (pre @ rest)) =
     (case fst (loopRegions pa st pre) of
        Cont st' \<Rightarrow> fst (loopRegions pa st' rest)
      | Stop e \<Rightarrow> Stop e
      | Panic \<Rightarrow> Panic)"
proof (induction pre arbitrary: st)
  case Nil
  show ?case by simp
next
  case (Cons kr pre)
  obtain k r where kr: "kr = (k, r)" by (cases kr)
  show ?case
    unfolding kr append_Cons loopRegions_Cons_flow
    by (cases "fst (regionStep pa st r)") (simp_all add: Cons.IH)
qed

lemma loopRegions_reach:
  assumes "fst (loopRegions pa st0 pre) = Cont st"
  shows "fst (loopRegions pa st0 (pre @ (k, r) # post)) =
     (case fst (regionStep pa st r) of
        Cont st' \<Rightarrow> fst (loopRegions pa st' post)
      | Stop e \<Rightarrow> Stop e
      | Panic \<Rightarrow> Panic)"
  by (simp only: loopRegions_append_flow assms flow.case loopRegions_Cons_flow)

lemma AssembleProvision_flow:
  "fst (AssembleProvision regulate pa) =
     (case fst (loopRegions pa (initState pa) (regionMap pa)) of
        Panic \<Rightarrow> Panicked
      | Stop err \<Rightarrow> Returned zeroResult False (Some err)
      | Cont st \<Rightarrow>
          Returned
            (fillPoolEntries pa (calculationResult st)
               (fst (regulate (shareAndIsolatePoolSizes pa st) (shareAndIsolatedPoolAvailable pa) (EnableReclaim pa))))
            (snd (regulate (shareAndIsolatePoolSizes pa st) (shareAndIsolatedPoolAvailable pa) (EnableReclaim pa)))
            None)"
  by (simp add: AssembleProvision_def split: prod.splits flow.splits)

lemma AssembleProvision_Stop:
  "fst (loopRegions pa (initState pa) (regionMap pa)) = Stop err \<Longrightarrow>
   fst (AssembleProvision regulate pa) = Returned zeroResult False (Some err)"
  by (simp add: AssembleProvision_flow)

lemma AssembleProvision_error_cases:
  assumes "fst (AssembleProvision regulate pa) = Returned res boundUpper (Some err)"
  shows "res = zeroResult \<and> boundUpper = False"
  using assms
  by (simp add: AssembleProvision_flow split: flow.splits)

lemma AssembleProvision_success:
  assumes "fst (AssembleProvision regulate pa) = Returned res boundUpper None"
  obtains st where "fst (loopRegions pa (initState pa) (regionMap pa)) = Cont st"
    and "res = fillPoolEntries pa (calculationResult st)
            (fst (regulate (shareAndIsolatePoolSizes pa st) (shareAndIsolatedPoolAvailable pa) (EnableReclaim pa)))"
    and "boundUpper = snd (regulate (shareAndIsolatePoolSizes pa st) (shareAndIsolatedPoolAvailable pa) (EnableReclaim pa))"
  using assms by (auto simp: AssembleProvision_flow split: flow.splits)

subsection \<open>The body of the loop, branch by branch\<close>

lemma regionStep_provision_error:
  "GetProvision r = Inl err \<Longrightarrow> fst (regionStep pa st r) = Stop err"
  by (simp add: regionStep_def)

lemma regionStep_pod_count:
  assumes "GetProvision r = Inr controlKnob" "Type r = QoSRegionTypeDedicatedNumaExclusive"
      and "GetBindingNumas r \<noteq> []" "Pods (GetPods r) \<noteq> 1"
  shows "fst (regionStep pa st r) = Stop (InvalidRegionAssignment (GetPods r))"
proof -
  obtain n ns where "ToSliceInt (GetBindingNumas r) = n # ns"
    using assms(3) ToSliceInt_Nil [of "GetBindingNumas r"]
    by (cases "ToSliceInt (GetBindingNumas r)") auto
  with assms show ?thesis by (simp add: regionStep_def Let_def)
qed

lemma regionStep_lookup:
  assumes "GetProvision r = Inr controlKnob" "Type r = QoSRegionTypeDedicatedNumaExclusive"
      and "ToSliceInt (GetBindingNumas r) = regionNuma # others"
      and "GetPods r = [(podUID, containers)]"
  shows "fst (regionStep pa st r) =
     (case PodEnableReclaim (metaServer pa) podUID (EnableReclaim pa) of
        Inl err \<Rightarrow> Stop err
      | Inr enableReclaim \<Rightarrow>
          if \<not> enableReclaim then
            (if 0 <s getNumasReservedForReclaim pa (GetBindingNumas r)
             then Cont (st\<lparr>calculationResult :=
                     SetPoolEntry (calculationResult st) PoolNameReclaim regionNuma
                       (getNumasReservedForReclaim pa (GetBindingNumas r))\<rparr>)
             else Cont st)
          else
            Cont (st\<lparr>calculationResult :=
                     SetPoolEntry (calculationResult st) PoolNameReclaim regionNuma
                       (getNumasAvailableResource (numaAvailable pa) (GetBindingNumas r)
                          - knobValue controlKnob ControlKnobNonReclaimedCPUSize
                          + getNumasReservedForReclaim pa (GetBindingNumas r))\<rparr>))"
  using assms
  by (simp add: regionStep_def Let_def Pods_def PopAny_def split: sum.splits)

lemma regionStep_panic_iff:
  "fst (regionStep pa st r) = Panic \<longleftrightarrow>
     (\<exists>controlKnob. GetProvision r = Inr controlKnob)
       \<and> Type r = QoSRegionTypeDedicatedNumaExclusive \<and> GetBindingNumas r = []"
proof (cases "GetProvision r")
  case (Inl err)
  then show ?thesis by (simp add: regionStep_def)
next
  case (Inr controlKnob)
  show ?thesis
  proof (cases "ToSliceInt (GetBindingNumas r)")
    case Nil
    then have "GetBindingNumas r = []" by (simp add: ToSliceInt_Nil)
    with Inr Nil show ?thesis
      by (cases "Type r") (simp_all add: regionStep_def Let_def)
  next
    case (Cons n ns)
    then have "GetBindingNumas r \<noteq> []" using ToSliceInt_Nil [of "GetBindingNumas r"] by auto
    with Inr Cons show ?thesis
      by (cases "Type r")
        (simp_all add: regionStep_def Let_def split: prod.splits sum.splits)
  qed
qed

lemma regionStep_bad_pod_count:
  assumes "Type r = QoSRegionTypeDedicatedNumaExclusive" "Pods (GetPods r) \<noteq> 1"
  shows "fst (regionStep pa st r) \<noteq> Cont st'"
proof (cases "GetProvision r")
  case (Inl err)
  then show ?thesis by (simp add: regionStep_def)
next
  case (Inr controlKnob)
  show ?thesis
  proof (cases "GetBindingNumas r = []")
    case True
    then show ?thesis using regionStep_panic_iff [of pa st r] Inr assms(1) by simp
  next
    case False
    then show ?thesis using regionStep_pod_count [OF Inr assms(1) False assms(2)] by simp
  qed
qed

lemma loopRegions_bad_pod_count:
  assumes "(k, r) \<in> set rs" "Type r = QoSRegionTypeDedicatedNumaExclusive" "Pods (GetPods r) \<noteq> 1"
  shows "fst (loopRegions pa st rs) \<noteq> Cont st'"
  using assms(1)
proof (induction rs arbitrary: st)
  case Nil
  then show ?case by simp
next
  case (Cons kr rs)
  obtain k0 r0 where kr: "kr = (k0, r0)" by (cases kr)
  show ?case
  proof (cases "fst (regionStep pa st r0)")
    case (Cont st1)
    then have "r0 \<noteq> r" using regionStep_bad_pod_count [OF assms(2) assms(3)] by auto
    with Cons.prems kr have "(k, r) \<in> set rs" by auto
    then show ?thesis using Cons.IH Cont by (simp add: kr loopRegions_Cons_flow)
  next
    case (Stop e)
    then show ?thesis by (simp add: kr loopRegions_Cons_flow)
  next
    case Panic
    then show ?thesis by (simp add: kr loopRegions_Cons_flow)
  qed
qed

lemma loopRegions_no_panic:
  assumes "\<forall>(k, r)\<in>set rs. Type r = QoSRegionTypeDedicatedNumaExclusive \<longrightarrow> GetBindingNumas r \<noteq> []"
  shows "fst (loopRegions pa st rs) \<noteq> Panic"
  using assms
proof (induction rs arbitrary: st)
  case Nil
  then show ?case by simp
next
  case (Cons kr rs)
  obtain k r where kr: "kr = (k, r)" by (cases kr)
  have step: "fst (regionStep pa st r) \<noteq> Panic"
    using Cons.prems kr regionStep_panic_iff [of pa st r] by auto
  have rest: "fst (loopRegions pa st' rs) \<noteq> Panic" for st'
    using Cons.IH Cons.prems by auto
  show ?case
    using step rest
    by (cases "fst (regionStep pa st r)") (simp_all add: kr loopRegions_Cons_flow)
qed

lemma regionStep_Cont_fields:
  assumes "fst (regionStep pa st r) = Cont st'"
  shows "sharePoolSizes st' =
           (if Type r = QoSRegionTypeShare
            then AList.update (OwnerPoolName r) (regionKnob r ControlKnobNonReclaimedCPUSize) (sharePoolSizes st)
            else sharePoolSizes st)
       \<and> shares st' =
           shares st + (if Type r = QoSRegionTypeShare then regionKnob r ControlKnobNonReclaimedCPUSize else 0)
       \<and> isolationUpperSizes st' =
           (if Type r = QoSRegionTypeIsolation
            then AList.update (Name r) (regionKnob r ControlKnobNonReclaimedCPUSizeUpper) (isolationUpperSizes st)
            else isolationUpperSizes st)
       \<and> isolationLowerSizes st' =
           (if Type r = QoSRegionTypeIsolation
            then AList.update (Name r) (regionKnob r ControlKnobNonReclaimedCPUSizeLower) (isolationLowerSizes st)
            else isolationLowerSizes st)
       \<and> isolationUppers st' =
           isolationUppers st + (if Type r = QoSRegionTypeIsolation then regionKnob r ControlKnobNonReclaimedCPUSizeUpper else 0)"
proof (cases "GetProvision r")
  case (Inl err)
  with assms show ?thesis by (simp add: regionStep_def)
next
  case (Inr controlKnob)
  show ?thesis
  proof (cases "Type r")
    case QoSRegionTypeShare
    with Inr assms show ?thesis by (auto simp: regionStep_def Let_def regionKnob_def)
  next
    case QoSRegionTypeIsolation
    with Inr assms show ?thesis by (auto simp: regionStep_def Let_def regionKnob_def)
  next
    case QoSRegionTypeOther
    with Inr assms show ?thesis by (auto simp: regionStep_def Let_def)
  next
    case QoSRegionTypeDedicatedNumaExclusive
    show ?thesis
    proof (cases "ToSliceInt (GetBindingNumas r)")
      case Nil
      with Inr QoSRegionTypeDedicatedNumaExclusive assms show ?thesis
        by (simp add: regionStep_def)
    next
      case (Cons regionNuma others)
      show ?thesis
      proof (cases "Pods (GetPods r) = 1")
        case False
        with Inr QoSRegionTypeDedicatedNumaExclusive Cons assms show ?thesis
          by (simp add: regionStep_def Let_def)
      next
        case True
        then obtain podUID containers where pods: "GetPods r = [(podUID, containers)]"
          using Pods_one by blast
        show ?thesis
          using assms QoSRegionTypeDedicatedNumaExclusive
          unfolding regionStep_lookup [OF Inr QoSRegionTypeDedicatedNumaExclusive Cons pods]
          by (auto split: sum.splits if_splits)
      qed
    qed
  qed
qed

lemma loopRegions_totals:
  assumes "fst (loopRegions pa st rs) = Cont st'"
  shows "shares st' = shares st
            + (\<Sum>(k, r)\<leftarrow>rs. if Type r = QoSRegionTypeShare
                              then regionKnob r ControlKnobNonReclaimedCPUSize else 0)
       \<and> isolationUppers st' = isolationUppers st
            + (\<Sum>(k, r)\<leftarrow>rs. if Type r = QoSRegionTypeIsolation
                              then regionKnob r ControlKnobNonReclaimedCPUSizeUpper else 0)"
  using assms
proof (induction rs arbitrary: st)
  case Nil
  then show ?case by simp
next
  case (Cons kr rs)
  obtain k r where kr: "kr = (k, r)" by (cases kr)
  from Cons.prems obtain st1 where
    step: "fst (regionStep pa st r) = Cont st1" and rest: "fst (loopRegions pa st1 rs) = Cont st'"
    unfolding kr by (auto split: flow.splits)
  show ?case
    using regionStep_Cont_fields [OF step] Cons.IH [OF rest] by (simp add: kr)
qed

subsection \<open>Which entries a step leaves alone\<close>

lemma regionStep_entry_kept:
  assumes "fst (regionStep pa st r) = Cont st'"
      and "p \<noteq> PoolNameReclaim \<or> Type r \<noteq> QoSRegionTypeDedicatedNumaExclusive
             \<or> n \<notin> set (GetBindingNumas r)"
  shows "poolEntry (calculationResult st') p n = poolEntry (calculationResult st) p n"
proof (cases "GetProvision r")
  case (Inl err)
  with assms(1) show ?thesis by (simp add: regionStep_def)
next
  case (Inr controlKnob)
  show ?thesis
  proof (cases "Type r")
    case QoSRegionTypeShare
    with Inr assms(1) show ?thesis by (auto simp: regionStep_def Let_def)
  next
    case QoSRegionTypeIsolation
    with Inr assms(1) show ?thesis by (auto simp: regionStep_def Let_def)
  next
    case QoSRegionTypeOther
    with Inr assms(1) show ?thesis by (auto simp: regionStep_def Let_def)
  next
    case QoSRegionTypeDedicatedNumaExclusive
    show ?thesis
    proof (cases "ToSliceInt (GetBindingNumas r)")
      case Nil
      with Inr QoSRegionTypeDedicatedNumaExclusive assms(1) show ?thesis
        by (simp add: regionStep_def)
    next
      case (Cons regionNuma others)
      then have "regionNuma \<in> set (GetBindingNumas r)"
        using set_ToSliceInt [of "GetBindingNumas r"] by auto
      with assms(2) QoSRegionTypeDedicatedNumaExclusive
      have other: "p \<noteq> PoolNameReclaim \<or> n \<noteq> regionNuma" by auto
      show ?thesis
      proof (cases "Pods (GetPods r) = 1")
        case False
        with Inr QoSRegionTypeDedicatedNumaExclusive Cons assms(1) show ?thesis
          by (simp add: regionStep_def Let_def)
      next
        case True
        then obtain podUID containers where pods: "GetPods r = [(podUID, containers)]"
          using Pods_one by blast
        show ?thesis
          using assms(1) other
          unfolding regionStep_lookup [OF Inr QoSRegionTypeDedicatedNumaExclusive Cons pods]
          by (auto simp: poolEntry_SetPoolEntry split: sum.splits if_splits)
      qed
    qed
  qed
qed

lemma loopRegions_entry_kept:
  assumes "fst (loopRegions pa st rs) = Cont st'"
      and "p \<noteq> PoolNameReclaim
             \<or> (\<forall>(k, r)\<in>set rs. Type r = QoSRegionTypeDedicatedNumaExclusive
                    \<longrightarrow> n \<notin> set (GetBindingNumas r))"
  shows "poolEntry (calculationResult st') p n = poolEntry (calculationResult st) p n"
  using assms
proof (induction rs arbitrary: st)
  case Nil
  then show ?case by simp
next
  case (Cons kr rs)
  obtain k r where kr: "kr = (k, r)" by (cases kr)
  from Cons.prems(1) obtain st1 where
    step: "fst (regionStep pa st r) = Cont st1" and rest: "fst (loopRegions pa st1 rs) = Cont st'"
    unfolding kr loopRegions_Cons_flow by (auto split: flow.splits)
  have "poolEntry (calculationResult st1) p n = poolEntry (calculationResult st) p n"
    using regionStep_entry_kept [OF step, of p n] Cons.prems(2) kr by auto
  moreover have "poolEntry (calculationResult st') p n = poolEntry (calculationResult st1) p n"
    using Cons.IH [OF rest] Cons.prems(2) by auto
  ultimately show ?case by simp
qed

lemma fold_SetPoolEntry_kept:
  "n \<noteq> numaID \<or> p \<notin> fst ` set regulated \<Longrightarrow>
   poolEntry (fold (\<lambda>(poolName, poolSize) c. SetPoolEntry c poolName numaID poolSize) regulated cr) p n
     = poolEntry cr p n"
  by (induction regulated arbitrary: cr) (auto simp: poolEntry_SetPoolEntry)

lemma fillPoolEntries_reclaim:
  "poolEntry (fillPoolEntries pa cr regulated) PoolNameReclaim FakedNUMAID =
     Some (if EnableReclaim pa
           then shareAndIsolatedPoolAvailable pa - SumUpMapValues regulated
                  + getNumasReservedForReclaim pa (nonBindingNumas pa)
           else getNumasReservedForReclaim pa (nonBindingNumas pa))"
  by (simp add: fillPoolEntries_def Let_def poolEntry_SetPoolEntry)

lemma fillPoolEntries_kept:
  "n \<noteq> FakedNUMAID \<or> (p \<noteq> PoolNameReclaim \<and> p \<notin> fst ` set regulated) \<Longrightarrow>
   poolEntry (fillPoolEntries pa cr regulated) p n = poolEntry cr p n"
  by (auto simp: fillPoolEntries_def Let_def poolEntry_SetPoolEntry fold_SetPoolEntry_kept)

lemma dedicated_entry_survives:
  assumes regions: "regionMap pa = pre @ (k, r) # post"
      and ok: "fst (AssembleProvision regulate pa) = Returned res boundUpper None"
      and later: "\<forall>(k', r')\<in>set post. Type r' = QoSRegionTypeDedicatedNumaExclusive
                    \<longrightarrow> regionNuma \<notin> set (GetBindingNumas r')"
      and numa: "regionNuma \<noteq> FakedNUMAID"
  obtains st1 st2 where "fst (loopRegions pa (initState pa) pre) = Cont st1"
      and "fst (regionStep pa st1 r) = Cont st2"
      and "poolEntry res PoolNameReclaim regionNuma = poolEntry (calculationResult st2) PoolNameReclaim regionNuma"
proof -
  from ok obtain st where loop: "fst (loopRegions pa (initState pa) (regionMap pa)) = Cont st"
    and res: "res = fillPoolEntries pa (calculationResult st)
            (fst (regulate (shareAndIsolatePoolSizes pa st) (shareAndIsolatedPoolAvailable pa) (EnableReclaim pa)))"
    by (rule AssembleProvision_success)
  from loop obtain st1 where pre: "fst (loopRegions pa (initState pa) pre) = Cont st1"
    unfolding regions loopRegions_append_flow by (auto split: flow.splits)
  from loop obtain st2 where step: "fst (regionStep pa st1 r) = Cont st2"
    and post: "fst (loopRegions pa st2 post) = Cont st"
    unfolding regions loopRegions_reach [OF pre] by (auto split: flow.splits)
  have "poolEntry (calculationResult st) PoolNameReclaim regionNuma
          = poolEntry (calculationResult st2) PoolNameReclaim regionNuma"
    using loopRegions_entry_kept [OF post, of PoolNameReclaim regionNuma] later by blast
  moreover have "poolEntry res PoolNameReclaim regionNuma
          = poolEntry (calculationResult st) PoolNameReclaim regionNuma"
    unfolding res using fillPoolEntries_kept [of regionNuma] numa by blast
  ultimately show thesis using that [OF pre step] by simp
qed

lemma AssembleProvision_reserve_entry:
  assumes "fst (AssembleProvision regulate pa) = Returned res boundUpper None"
  obtains st where "fst (loopRegions pa (initState pa) (regionMap pa)) = Cont st"
    and "PoolNameReserve \<notin> fst ` set (fst (regulate (shareAndIsolatePoolSizes pa st)
                   (shareAndIsolatedPoolAvailable pa) (EnableReclaim pa)))
         \<Longrightarrow> poolEntry res PoolNameReserve FakedNUMAID =
               Some (case map_of (metaReader pa) PoolNameReserve of Some v \<Rightarrow> v | None \<Rightarrow> 0)"
proof -
  from assms obtain st where loop: "fst (loopRegions pa (initState pa) (regionMap pa)) = Cont st"
    and res: "res = fillPoolEntries pa (calculationResult st)
            (fst (regulate (shareAndIsolatePoolSizes pa st) (shareAndIsolatedPoolAvailable pa) (EnableReclaim pa)))"
    by (rule AssembleProvision_success)
  have neq: "PoolNameReserve \<noteq> PoolNameReclaim"
    by (simp add: PoolNameReserve_def PoolNameReclaim_def)
  have kept: "poolEntry (calculationResult st) PoolNameReserve FakedNUMAID =
               Some (case map_of (metaReader pa) PoolNameReserve of Some v \<Rightarrow> v | None \<Rightarrow> 0)"
    using loopRegions_entry_kept [OF loop, of PoolNameReserve FakedNUMAID] neq
    by (simp add: initState_entry)
  show thesis
  proof (rule that [OF loop])
    assume "PoolNameReserve \<notin> fst ` set (fst (regulate (shareAndIsolatePoolSizes pa st)
                   (shareAndIsolatedPoolAvailable pa) (EnableReclaim pa)))"
    then show "poolEntry res PoolNameReserve FakedNUMAID =
               Some (case map_of (metaReader pa) PoolNameReserve of Some v \<Rightarrow> v | None \<Rightarrow> 0)"
      unfolding res using fillPoolEntries_kept [where n = FakedNUMAID and p = PoolNameReserve] neq kept by simp
  qed
qed

subsection \<open>The result holds a key once\<close>

lemma set_update_subset: "set (AList.update k v al) \<subseteq> insert (k, v) (set al)"
  by (induction al) auto

lemma distinctEntries_SetPoolEntry:
  assumes "distinctEntries r"
  shows "distinctEntries (SetPoolEntry r p n v)"
proof -
  let ?m = "case map_of (PoolEntries r) p of None \<Rightarrow> [] | Some m \<Rightarrow> m"
  have inner: "distinct (map fst ?m)"
    using assms by (auto simp: distinctEntries_def split: option.splits dest: map_of_SomeD)
  have "\<forall>(p', m')\<in>set (AList.update p (AList.update n v ?m) (PoolEntries r)). distinct (map fst m')"
    using set_update_subset [of p "AList.update n v ?m" "PoolEntries r"] assms inner
    by (auto simp: distinctEntries_def distinct_update)
  then show ?thesis
    using assms by (simp add: distinctEntries_def SetPoolEntry_def distinct_update)
qed

lemma distinct_filter_key:
  "distinct (map fst al) \<Longrightarrow> map_of al k = Some v \<Longrightarrow> filter (\<lambda>(a, b). a = k) al = [(k, v)]"
proof (induction al)
  case Nil
  then show ?case by simp
next
  case (Cons kv al)
  obtain a b where kv: "kv = (a, b)" by (cases kv)
  show ?case
  proof (cases "a = k")
    case True
    with Cons.prems kv have "b = v" and "k \<notin> fst ` set al" by auto
    then have "filter (\<lambda>(a, b). a = k) al = []"
      by (force simp: filter_empty_conv)
    with True kv \<open>b = v\<close> show ?thesis by simp
  next
    case False
    with Cons kv show ?thesis by simp
  qed
qed

lemma regionStep_distinctEntries:
  assumes "fst (regionStep pa st r) = Cont st'" "distinctEntries (calculationResult st)"
  shows "distinctEntries (calculationResult st')"
proof (cases "GetProvision r")
  case (Inl err)
  with assms show ?thesis by (simp add: regionStep_def)
next
  case (Inr controlKnob)
  show ?thesis
  proof (cases "Type r")
    case QoSRegionTypeShare
    with Inr assms show ?thesis by (auto simp: regionStep_def Let_def)
  next
    case QoSRegionTypeIsolation
    with Inr assms show ?thesis by (auto simp: regionStep_def Let_def)
  next
    case QoSRegionTypeOther
    with Inr assms show ?thesis by (auto simp: regionStep_def Let_def)
  next
    case QoSRegionTypeDedicatedNumaExclusive
    show ?thesis
    proof (cases "ToSliceInt (GetBindingNumas r)")
      case Nil
      with Inr QoSRegionTypeDedicatedNumaExclusive assms show ?thesis
        by (simp add: regionStep_def)
    next
      case (Cons regionNuma others)
      show ?thesis
      proof (cases "Pods (GetPods r) = 1")
        case False
        with Inr QoSRegionTypeDedicatedNumaExclusive Cons assms show ?thesis
          by (simp add: regionStep_def Let_def)
      next
        case True
        then obtain podUID containers where pods: "GetPods r = [(podUID, containers)]"
          using Pods_one by blast
        show ?thesis
          using assms
          unfolding regionStep_lookup [OF Inr QoSRegionTypeDedicatedNumaExclusive Cons pods]
          by (auto simp: distinctEntries_SetPoolEntry split: sum.splits if_splits)
      qed
    qed
  qed
qed

lemma loopRegions_distinctEntries:
  assumes "fst (loopRegions pa st rs) = Cont st'" "distinctEntries (calculationResult st)"
  shows "distinctEntries (calculationResult st')"
  using assms
proof (induction rs arbitrary: st)
  case Nil
  then show ?case by simp
next
  case (Cons kr rs)
  obtain k r where kr: "kr = (k, r)" by (cases kr)
  from Cons.prems(1) obtain st1 where
    step: "fst (regionStep pa st r) = Cont st1" and rest: "fst (loopRegions pa st1 rs) = Cont st'"
    unfolding kr by (auto split: flow.splits)
  show ?case
    using Cons.IH [OF rest] regionStep_distinctEntries [OF step Cons.prems(2)] by simp
qed

lemma fold_distinctEntries:
  "distinctEntries cr \<Longrightarrow>
   distinctEntries (fold (\<lambda>(poolName, poolSize) c. SetPoolEntry c poolName numaID poolSize) regulated cr)"
  by (induction regulated arbitrary: cr) (auto simp: distinctEntries_SetPoolEntry)

lemma fillPoolEntries_distinctEntries:
  "distinctEntries cr \<Longrightarrow> distinctEntries (fillPoolEntries pa cr regulated)"
  by (simp add: fillPoolEntries_def Let_def distinctEntries_SetPoolEntry fold_distinctEntries)

lemma initState_distinctEntries: "distinctEntries (calculationResult (initState pa))"
proof -
  have "distinctEntries \<lparr>PoolEntries = [], TimeStamp = clock pa\<rparr>"
    by (simp add: distinctEntries_def)
  then show ?thesis
    by (simp add: initState_def Let_def distinctEntries_SetPoolEntry)
qed

lemma AssembleProvision_distinctEntries:
  assumes "fst (AssembleProvision regulate pa) = Returned res boundUpper None"
  shows "distinctEntries res"
proof -
  from assms obtain st where loop: "fst (loopRegions pa (initState pa) (regionMap pa)) = Cont st"
    and res: "res = fillPoolEntries pa (calculationResult st)
            (fst (regulate (shareAndIsolatePoolSizes pa st) (shareAndIsolatedPoolAvailable pa) (EnableReclaim pa)))"
    by (rule AssembleProvision_success)
  show ?thesis
    unfolding res
    by (rule fillPoolEntries_distinctEntries)
       (rule loopRegions_distinctEntries [OF loop initState_distinctEntries])
qed

lemma one_entry:
  assumes "distinctEntries res" "poolEntry res p n = Some v"
  shows "\<exists>m. filter (\<lambda>(p', m'). p' = p) (PoolEntries res) = [(p, m)]
            \<and> filter (\<lambda>(n', v'). n' = n) m = [(n, v)]"
proof -
  from assms(2) obtain m where m: "map_of (PoolEntries res) p = Some m" and v: "map_of m n = Some v"
    by (auto simp: poolEntry_def split: option.splits)
  have "distinct (map fst m)"
    using assms(1) map_of_SomeD [OF m] by (auto simp: distinctEntries_def)
  then have "filter (\<lambda>(n', v'). n' = n) m = [(n, v)]"
    using v by (rule distinct_filter_key)
  moreover have "filter (\<lambda>(p', m'). p' = p) (PoolEntries res) = [(p, m)]"
    using assms(1) m by (auto simp: distinctEntries_def intro: distinct_filter_key)
  ultimately show ?thesis by blast
qed

subsection \<open>The flow of the loop does not depend on the meta reader\<close>

lemma regionStep_independent:
  "map_flow (\<lambda>_. ()) (fst (regionStep (pa\<lparr>metaReader := mr\<rparr>) st' r))
     = map_flow (\<lambda>_. ()) (fst (regionStep pa st r))"
proof (cases "GetProvision r")
  case (Inl err)
  then show ?thesis by (simp add: regionStep_def)
next
  case (Inr controlKnob)
  show ?thesis
  proof (cases "Type r")
    case QoSRegionTypeShare
    with Inr show ?thesis by (simp add: regionStep_def Let_def)
  next
    case QoSRegionTypeIsolation
    with Inr show ?thesis by (simp add: regionStep_def Let_def)
  next
    case QoSRegionTypeOther
    with Inr show ?thesis by (simp add: regionStep_def Let_def)
  next
    case QoSRegionTypeDedicatedNumaExclusive
    show ?thesis
    proof (cases "ToSliceInt (GetBindingNumas r)")
      case Nil
      with Inr QoSRegionTypeDedicatedNumaExclusive show ?thesis
        by (simp add: regionStep_def)
    next
      case (Cons regionNuma others)
      show ?thesis
      proof (cases "Pods (GetPods r) = 1")
        case False
        with Inr QoSRegionTypeDedicatedNumaExclusive Cons show ?thesis
          by (simp add: regionStep_def Let_def)
      next
        case True
        then obtain podUID containers where pods: "GetPods r = [(podUID, containers)]"
          using Pods_one by blast
        show ?thesis
          unfolding regionStep_lookup [OF Inr QoSRegionTypeDedicatedNumaExclusive Cons pods]
          by (simp add: getNumasReservedForReclaim_def split: sum.splits)
      qed
    qed
  qed
qed

lemma loopRegions_independent:
  "map_flow (\<lambda>_. ()) (fst (loopRegions (pa\<lparr>metaReader := mr\<rparr>) st' rs))
     = map_flow (\<lambda>_. ()) (fst (loopRegions pa st rs))"
proof (induction rs arbitrary: st st')
  case Nil
  show ?case by simp
next
  case (Cons kr rs)
  obtain k r where kr: "kr = (k, r)" by (cases kr)
  show ?case
    using regionStep_independent [where pa = pa and mr = mr and st' = st' and r = r and st = st] Cons.IH
    by (cases "fst (regionStep pa st r)";
        cases "fst (regionStep (pa\<lparr>metaReader := mr\<rparr>) st' r)")
       (simp_all add: kr)
qed

lemma AssembleProvision_metaReader:
  "fst (AssembleProvision regulate (pa\<lparr>metaReader := mr\<rparr>)) = Returned res boundUpper (Some err)
     \<longleftrightarrow> fst (AssembleProvision regulate pa) = Returned res boundUpper (Some err)"
  using loopRegions_independent [where pa = pa and mr = mr and st' = "initState (pa\<lparr>metaReader := mr\<rparr>)" and rs = "regionMap pa" and st = "initState pa"]
  by (cases "fst (loopRegions pa (initState pa) (regionMap pa))";
      cases "fst (loopRegions (pa\<lparr>metaReader := mr\<rparr>) (initState (pa\<lparr>metaReader := mr\<rparr>)) (regionMap pa))")
     (simp_all add: AssembleProvision_flow)

lemma AssembleProvision_metaReader_panic:
  "fst (AssembleProvision regulate (pa\<lparr>metaReader := mr\<rparr>)) = Panicked
     \<longleftrightarrow> fst (AssembleProvision regulate pa) = Panicked"
  using loopRegions_independent [where pa = pa and mr = mr and st' = "initState (pa\<lparr>metaReader := mr\<rparr>)" and rs = "regionMap pa" and st = "initState pa"]
  by (cases "fst (loopRegions pa (initState pa) (regionMap pa))";
      cases "fst (loopRegions (pa\<lparr>metaReader := mr\<rparr>) (initState (pa\<lparr>metaReader := mr\<rparr>)) (regionMap pa))")
     (simp_all add: AssembleProvision_flow)

subsection \<open>Sizes within the totals, and the regulator\<close>

lemma update_nonneg:
  assumes "\<forall>(k', v')\<in>set xs. 0 \<le> (v'::int)" "0 \<le> v"
  shows "(\<forall>(k', v')\<in>set (AList.update k v xs). 0 \<le> v')
       \<and> SumUpMapValues (AList.update k v xs) \<le> SumUpMapValues xs + v"
  using assms by (induction xs) (auto simp: SumUpMapValues_def)

lemma MergeMapInt_nonneg:
  assumes "\<forall>(k, v)\<in>set src. 0 \<le> (v::int)" "\<forall>(k, v)\<in>set override. 0 \<le> v"
  shows "SumUpMapValues (MergeMapInt src override) \<le> SumUpMapValues src + SumUpMapValues override"
  using assms unfolding MergeMapInt_def
proof (induction override arbitrary: src)
  case Nil
  then show ?case by (simp add: SumUpMapValues_def)
next
  case (Cons kv override)
  obtain k v where kv: "kv = (k, v)" by (cases kv)
  have v: "0 \<le> v" using Cons.prems(2) kv by simp
  have upd: "(\<forall>(k', v')\<in>set (AList.update k v src). 0 \<le> v')"
    and le: "SumUpMapValues (AList.update k v src) \<le> SumUpMapValues src + v"
    using update_nonneg [OF Cons.prems(1) v, of k] by auto
  have "SumUpMapValues (fold (\<lambda>(k, v). AList.update k v) override (AList.update k v src))
          \<le> SumUpMapValues (AList.update k v src) + SumUpMapValues override"
    using Cons.IH [OF upd] Cons.prems(2) by simp
  with le show ?case by (simp add: kv SumUpMapValues_def)
qed

lemma sum_clampSize: "sum_list (map snd demand) \<le> sum_list (map (\<lambda>(k, v). clampSize v) demand)"
  by (induction demand) (auto simp: clampSize_def)

lemma largestPool_mem: "largestPool xs = Some (k, v) \<Longrightarrow> (k, v) \<in> set xs"
  by (induction xs arbitrary: k v) (auto split: option.splits if_splits)

lemma largestPool_nonempty: "xs \<noteq> [] \<Longrightarrow> \<exists>k v. largestPool xs = Some (k, v)"
  by (cases xs) (auto split: option.splits)

lemma addToPool_sum:
  "k \<in> fst ` set xs \<Longrightarrow> SumUpMapValues (addToPool k n xs) = SumUpMapValues xs + n"
  by (induction xs) (force simp: SumUpMapValues_def)+

lemma scaleDown_sum:
  assumes "SumUpMapValues demand > available" "0 \<le> available"
  shows "SumUpMapValues (scaleDown demand available) = available"
proof -
  let ?total = "sum_list (map (\<lambda>(k, v). clampSize v) demand)"
  have total: "?total > available"
    using assms(1) sum_clampSize [of demand] by (simp add: SumUpMapValues_def)
  show ?thesis
  proof (cases "available = 0")
    case True
    have "SumUpMapValues (map (\<lambda>(k, v). (k, 0)) demand) = 0"
      by (induction demand) (auto simp: SumUpMapValues_def)
    with True show ?thesis by (simp add: scaleDown_def Let_def)
  next
    case False
    with assms(2) total have pos: "available > 0" "?total \<noteq> 0" by auto
    from total assms(2) have "demand \<noteq> []" by auto
    then obtain k v where largest: "largestPool demand = Some (k, v)"
      using largestPool_nonempty by blast
    let ?scaled = "map (\<lambda>(k, v). (k, clampSize v * available div ?total)) demand"
    have "k \<in> fst ` set demand" using largestPool_mem [OF largest] by force
    then have "k \<in> fst ` set ?scaled" by force
    then have "SumUpMapValues (addToPool k (available - SumUpMapValues ?scaled) ?scaled) = available"
      by (simp add: addToPool_sum)
    then show ?thesis
      using pos largest by (simp add: scaleDown_def Let_def)
  qed
qed

lemma floor_scale_le:
  assumes "0 < (T::int)"
  shows "sum_list (map (\<lambda>(k, v). f v * A div T) xs) * T \<le> A * sum_list (map (\<lambda>(k, v). f v) xs)"
proof (induction xs)
  case Nil
  show ?case by simp
next
  case (Cons kv xs)
  obtain k v where kv: "kv = (k, v)" by (cases kv)
  have "f v * A div T * T \<le> f v * A"
  proof -
    have "f v * A = f v * A div T * T + f v * A mod T" by simp
    moreover have "0 \<le> f v * A mod T" using assms by simp
    ultimately show ?thesis by linarith
  qed
  with Cons.IH show ?case
    by (simp add: kv algebra_simps)
qed

lemma scaled_sum_le:
  assumes "0 < sum_list (map (\<lambda>(k, v). clampSize v) demand)"
  shows "SumUpMapValues (map (\<lambda>(k, v). (k, clampSize v * available div sum_list (map (\<lambda>(k, v). clampSize v) demand))) demand)
           \<le> available"
proof -
  let ?T = "sum_list (map (\<lambda>(k, v). clampSize v) demand)"
  have eq: "SumUpMapValues (map (\<lambda>(k, v). (k, clampSize v * available div ?T)) demand)
          = sum_list (map (\<lambda>(k, v). clampSize v * available div ?T) demand)"
    by (simp add: SumUpMapValues_def comp_def case_prod_unfold)
  have "sum_list (map (\<lambda>(k, v). clampSize v * available div ?T) demand) * ?T \<le> available * ?T"
    using floor_scale_le [OF assms, of clampSize available demand] by simp
  then show ?thesis using assms eq by simp
qed

lemma addToPool_nonneg:
  "\<forall>(k, v)\<in>set xs. 0 \<le> v \<Longrightarrow> 0 \<le> n \<Longrightarrow> \<forall>(k, v)\<in>set (addToPool k' n xs). 0 \<le> v"
  by (induction xs) (auto split: if_splits)

lemma scaleDown_nonneg: "\<forall>(k, v)\<in>set (scaleDown demand available). 0 \<le> v"
proof -
  let ?T = "sum_list (map (\<lambda>(k, v). clampSize v) demand)"
  show ?thesis
  proof (cases "?T = 0 \<or> available \<le> 0")
    case True
    then show ?thesis by (auto simp: scaleDown_def Let_def)
  next
    case False
    have "0 \<le> ?T" by (induction demand) (auto simp: clampSize_def)
    with False have T: "0 < ?T" and A: "0 < available" by auto
    let ?scaled = "map (\<lambda>(k, v). (k, clampSize v * available div ?T)) demand"
    have scaled: "\<forall>(k, v)\<in>set ?scaled. 0 \<le> v"
      using T A by (auto simp: clampSize_def pos_imp_zdiv_nonneg_iff)
    have rem: "0 \<le> available - SumUpMapValues ?scaled"
      using scaled_sum_le [OF T, of available] by simp
    show ?thesis
    proof (cases "largestPool demand")
      case None
      with False scaled show ?thesis by (simp add: scaleDown_def Let_def)
    next
      case (Some kv)
      obtain k v where "kv = (k, v)" by (cases kv)
      with Some False addToPool_nonneg [OF scaled rem, of k] show ?thesis
        by (simp add: scaleDown_def Let_def)
    qed
  qed
qed

lemma map_fst_addToPool: "map fst (addToPool k n xs) = map fst xs"
  by (induction xs) auto

lemma scaleDown_keys: "map fst (scaleDown demand available) = map fst demand"
  by (auto simp: scaleDown_def Let_def map_fst_addToPool comp_def case_prod_unfold split: option.splits)

text \<open>The regulator of the model keeps to the policy of the spec: demand that fits is
  returned as it is, with \<open>True\<close>; demand that does not is answered with
  \<open>False\<close>, for the same pools, with no negative size, and with sizes that use up
  what is available.\<close>

lemma regulatePoolSizes_policy:
  "(SumUpMapValues demand \<le> available \<longrightarrow>
      regulatePoolSizes demand available enableReclaim = (demand, True))
   \<and> (available < SumUpMapValues demand \<longrightarrow>
        snd (regulatePoolSizes demand available enableReclaim) = False
        \<and> map fst (fst (regulatePoolSizes demand available enableReclaim)) = map fst demand
        \<and> (\<forall>(k, v)\<in>set (fst (regulatePoolSizes demand available enableReclaim)). 0 \<le> v)
        \<and> (0 \<le> available \<longrightarrow>
              SumUpMapValues (fst (regulatePoolSizes demand available enableReclaim)) = available))"
  using scaleDown_nonneg [of demand available] scaleDown_sum [of available demand]
  by (auto simp: regulatePoolSizes_def scaleDown_keys)

subsection \<open>Go integers and the integers they stand for\<close>

lemma word_of_int_sint64: "word_of_int (sint (w::GoInt)) = w"
  by simp

lemma sint_word_of_int64:
  "- (2 ^ 63) \<le> k \<Longrightarrow> k < 2 ^ 63 \<Longrightarrow> sint (word_of_int k :: GoInt) = k"
  by (simp add: sint_sbintrunc' signed_take_bit_int_eq_self)

lemma goSizes_intSizes: "goSizes (intSizes m) = m"
  by (induction m) (auto simp: goSizes_def intSizes_def word_of_int_sint64)

lemma intSizes_update: "intSizes (AList.update k v m) = AList.update k (sint v) (intSizes m)"
  by (induction m) (auto simp: intSizes_def)

lemma intSizes_MergeMapInt:
  "intSizes (MergeMapInt src override) = MergeMapInt (intSizes src) (intSizes override)"
  unfolding MergeMapInt_def
proof (induction override arbitrary: src)
  case Nil
  show ?case by (simp add: intSizes_def)
next
  case (Cons kv override)
  obtain k v where kv: "kv = (k, v)" by (cases kv)
  have "intSizes (kv # override) = (k, sint v) # intSizes override"
    by (simp add: kv intSizes_def)
  then show ?case
    using Cons.IH [of "AList.update k v src"] by (simp add: kv intSizes_update)
qed

lemma sint_of_value:
  "word_of_int k = (w::GoInt) \<Longrightarrow> - (2 ^ 63) \<le> k \<Longrightarrow> k < 2 ^ 63 \<Longrightarrow> sint w = k"
  using sint_word_of_int64 [of k] by simp

lemma word_of_int_lookup:
  "word_of_int (case x of Some v \<Rightarrow> sint v | None \<Rightarrow> 0) = (case x of Some (v::GoInt) \<Rightarrow> v | None \<Rightarrow> 0)"
  by (cases x) (simp_all add: word_of_int_sint64)

lemma word_of_int_SumUpMapValues:
  "word_of_int (SumUpMapValues (intSizes m)) = SumUpMapValues m"
  by (induction m) (auto simp: SumUpMapValues_def intSizes_def word_of_int_sint64)

lemma sle_not_sless: "(a \<le>s b) \<longleftrightarrow> \<not> (b <s (a::GoInt))"
  by (simp add: word_sle_eq word_sless_alt not_less)

subsection \<open>What the loop collects\<close>

lemma map_of_update_rev:
  "(map_of (AList.update k v m) ++ map_of (rev xs)) = (map_of m ++ map_of (rev ((k, v) # xs)))"
  by (rule ext) (simp add: update_conv' map_add_def split: option.splits)

lemma loopRegions_sizes:
  assumes "fst (loopRegions pa st rs) = Cont st'"
  shows "map_of (sharePoolSizes st') = map_of (sharePoolSizes st) ++ map_of (rev (shareSizesOf rs))
       \<and> map_of (isolationUpperSizes st') =
           map_of (isolationUpperSizes st) ++ map_of (rev (isolationSizesOf ControlKnobNonReclaimedCPUSizeUpper rs))
       \<and> map_of (isolationLowerSizes st') =
           map_of (isolationLowerSizes st) ++ map_of (rev (isolationSizesOf ControlKnobNonReclaimedCPUSizeLower rs))"
  using assms
proof (induction rs arbitrary: st)
  case Nil
  then show ?case by (simp add: shareSizesOf_def isolationSizesOf_def)
next
  case (Cons kr rs)
  obtain k r where kr: "kr = (k, r)" by (cases kr)
  from Cons.prems obtain st1 where
    step: "fst (regionStep pa st r) = Cont st1" and rest: "fst (loopRegions pa st1 rs) = Cont st'"
    unfolding kr by (auto split: flow.splits)
  note fields = regionStep_Cont_fields [OF step]
  note ih = Cons.IH [OF rest]
  have share: "map_of (sharePoolSizes st') = map_of (sharePoolSizes st) ++ map_of (rev (shareSizesOf (kr # rs)))"
  proof (cases "Type r = QoSRegionTypeShare")
    case True
    then show ?thesis
      using ih fields map_of_update_rev [of "OwnerPoolName r" _ "sharePoolSizes st" "shareSizesOf rs"]
      by (simp add: kr shareSizesOf_def)
  next
    case False
    then show ?thesis using ih fields by (simp add: kr shareSizesOf_def)
  qed
  have iso: "map_of (isolationUpperSizes st') =
           map_of (isolationUpperSizes st) ++ map_of (rev (isolationSizesOf ControlKnobNonReclaimedCPUSizeUpper (kr # rs)))
     \<and> map_of (isolationLowerSizes st') =
           map_of (isolationLowerSizes st) ++ map_of (rev (isolationSizesOf ControlKnobNonReclaimedCPUSizeLower (kr # rs)))"
  proof (cases "Type r = QoSRegionTypeIsolation")
    case True
    then show ?thesis
      using ih fields
        map_of_update_rev [of "Name r" _ "isolationUpperSizes st" "isolationSizesOf ControlKnobNonReclaimedCPUSizeUpper rs"]
        map_of_update_rev [of "Name r" _ "isolationLowerSizes st" "isolationSizesOf ControlKnobNonReclaimedCPUSizeLower rs"]
      by (simp add: kr isolationSizesOf_def)
  next
    case False
    then show ?thesis using ih fields by (simp add: kr isolationSizesOf_def)
  qed
  from share iso show ?case by simp
qed

lemma loopRegions_keys:
  assumes "fst (loopRegions pa st rs) = Cont st'"
      and "distinct (map fst (sharePoolSizes st))"
          "distinct (map fst (isolationUpperSizes st))"
          "distinct (map fst (isolationLowerSizes st))"
  shows "distinct (map fst (sharePoolSizes st'))
       \<and> distinct (map fst (isolationUpperSizes st'))
       \<and> distinct (map fst (isolationLowerSizes st'))"
  using assms
proof (induction rs arbitrary: st)
  case Nil
  then show ?case by simp
next
  case (Cons kr rs)
  obtain k r where kr: "kr = (k, r)" by (cases kr)
  from Cons.prems(1) obtain st1 where
    step: "fst (regionStep pa st r) = Cont st1" and rest: "fst (loopRegions pa st1 rs) = Cont st'"
    unfolding kr by (auto split: flow.splits)
  have "distinct (map fst (sharePoolSizes st1))"
       "distinct (map fst (isolationUpperSizes st1))"
       "distinct (map fst (isolationLowerSizes st1))"
    using regionStep_Cont_fields [OF step] Cons.prems(2-4) by (simp_all add: distinct_update)
  then show ?case by (rule Cons.IH [OF rest])
qed

lemma loopRegions_go_totals:
  assumes "fst (loopRegions pa st rs) = Cont st'"
  shows "shares st' + isolationUppers st' = shares st + isolationUppers st + word_of_int (demandTotal rs)"
  using assms
proof (induction rs arbitrary: st)
  case Nil
  then show ?case by (simp add: demandTotal_def)
next
  case (Cons kr rs)
  obtain k r where kr: "kr = (k, r)" by (cases kr)
  from Cons.prems obtain st1 where
    step: "fst (regionStep pa st r) = Cont st1" and rest: "fst (loopRegions pa st1 rs) = Cont st'"
    unfolding kr by (auto split: flow.splits)
  have "demandTotal (kr # rs) =
          (if Type r = QoSRegionTypeShare then sint (regionKnob r ControlKnobNonReclaimedCPUSize)
           else if Type r = QoSRegionTypeIsolation then sint (regionKnob r ControlKnobNonReclaimedCPUSizeUpper)
           else 0) + demandTotal rs"
    by (simp add: kr demandTotal_def)
  then show ?case
    using regionStep_Cont_fields [OF step] Cons.IH [OF rest] by (simp add: word_of_int_sint64)
qed

lemma demandTotal_nonneg:
  assumes "\<forall>(k, r)\<in>set rs.
             (Type r = QoSRegionTypeShare \<longrightarrow> 0 \<le>s regionKnob r ControlKnobNonReclaimedCPUSize)
             \<and> (Type r = QoSRegionTypeIsolation \<longrightarrow> 0 \<le>s regionKnob r ControlKnobNonReclaimedCPUSizeUpper)"
  shows "0 \<le> demandTotal rs"
  using assms by (induction rs) (auto simp: demandTotal_def word_sle_eq)

lemma regionStep_within_totals:
  assumes step: "fst (regionStep pa st r) = Cont st'"
      and share: "Type r = QoSRegionTypeShare \<Longrightarrow> 0 \<le>s regionKnob r ControlKnobNonReclaimedCPUSize"
      and isolation: "Type r = QoSRegionTypeIsolation \<Longrightarrow> 0 \<le>s regionKnob r ControlKnobNonReclaimedCPUSizeUpper"
      and inv: "\<forall>(k, v)\<in>set (intSizes (sharePoolSizes st)). 0 \<le> v"
               "\<forall>(k, v)\<in>set (intSizes (isolationUpperSizes st)). 0 \<le> v"
               "SumUpMapValues (intSizes (sharePoolSizes st)) + SumUpMapValues (intSizes (isolationUpperSizes st)) \<le> t"
  shows "(\<forall>(k, v)\<in>set (intSizes (sharePoolSizes st')). 0 \<le> v)
       \<and> (\<forall>(k, v)\<in>set (intSizes (isolationUpperSizes st')). 0 \<le> v)
       \<and> SumUpMapValues (intSizes (sharePoolSizes st')) + SumUpMapValues (intSizes (isolationUpperSizes st'))
           \<le> t + demandTotal [(k, r)]"
proof (cases "Type r")
  case QoSRegionTypeShare
  have "0 \<le> sint (regionKnob r ControlKnobNonReclaimedCPUSize)"
    using share [OF QoSRegionTypeShare] by (simp add: word_sle_eq)
  then show ?thesis
    using QoSRegionTypeShare regionStep_Cont_fields [OF step] inv
      update_nonneg [OF inv(1), of "sint (regionKnob r ControlKnobNonReclaimedCPUSize)" "OwnerPoolName r"]
    by (simp add: intSizes_update demandTotal_def)
next
  case QoSRegionTypeIsolation
  have "0 \<le> sint (regionKnob r ControlKnobNonReclaimedCPUSizeUpper)"
    using isolation [OF QoSRegionTypeIsolation] by (simp add: word_sle_eq)
  then show ?thesis
    using QoSRegionTypeIsolation regionStep_Cont_fields [OF step] inv
      update_nonneg [OF inv(2), of "sint (regionKnob r ControlKnobNonReclaimedCPUSizeUpper)" "Name r"]
    by (simp add: intSizes_update demandTotal_def)
next
  case QoSRegionTypeDedicatedNumaExclusive
  then show ?thesis using regionStep_Cont_fields [OF step] inv by (simp add: demandTotal_def)
next
  case QoSRegionTypeOther
  then show ?thesis using regionStep_Cont_fields [OF step] inv by (simp add: demandTotal_def)
qed

lemma loopRegions_within_totals:
  assumes "fst (loopRegions pa st rs) = Cont st'"
      and "\<forall>(k, r)\<in>set rs.
             (Type r = QoSRegionTypeShare \<longrightarrow> 0 \<le>s regionKnob r ControlKnobNonReclaimedCPUSize)
             \<and> (Type r = QoSRegionTypeIsolation \<longrightarrow> 0 \<le>s regionKnob r ControlKnobNonReclaimedCPUSizeUpper)"
      and "\<forall>(k, v)\<in>set (intSizes (sharePoolSizes st)). 0 \<le> v"
          "\<forall>(k, v)\<in>set (intSizes (isolationUpperSizes st)). 0 \<le> v"
          "SumUpMapValues (intSizes (sharePoolSizes st)) + SumUpMapValues (intSizes (isolationUpperSizes st)) \<le> t"
  shows "(\<forall>(k, v)\<in>set (intSizes (sharePoolSizes st')). 0 \<le> v)
       \<and> (\<forall>(k, v)\<in>set (intSizes (isolationUpperSizes st')). 0 \<le> v)
       \<and> SumUpMapValues (intSizes (sharePoolSizes st')) + SumUpMapValues (intSizes (isolationUpperSizes st'))
           \<le> t + demandTotal rs"
  using assms
proof (induction rs arbitrary: st t)
  case Nil
  then show ?case by (simp add: demandTotal_def)
next
  case (Cons kr rs)
  obtain k r where kr: "kr = (k, r)" by (cases kr)
  from Cons.prems(1) obtain st1 where
    step: "fst (regionStep pa st r) = Cont st1" and rest: "fst (loopRegions pa st1 rs) = Cont st'"
    unfolding kr by (auto split: flow.splits)
  have share: "Type r = QoSRegionTypeShare \<Longrightarrow> 0 \<le>s regionKnob r ControlKnobNonReclaimedCPUSize"
    and isolation: "Type r = QoSRegionTypeIsolation \<Longrightarrow> 0 \<le>s regionKnob r ControlKnobNonReclaimedCPUSizeUpper"
    using Cons.prems(2) kr by auto
  have inv1: "(\<forall>(k, v)\<in>set (intSizes (sharePoolSizes st1)). 0 \<le> v)
       \<and> (\<forall>(k, v)\<in>set (intSizes (isolationUpperSizes st1)). 0 \<le> v)
       \<and> SumUpMapValues (intSizes (sharePoolSizes st1)) + SumUpMapValues (intSizes (isolationUpperSizes st1))
           \<le> t + demandTotal [(k, r)]"
    by (rule regionStep_within_totals [OF step share isolation Cons.prems(3-5)])
  have tail: "\<forall>(k, r)\<in>set rs.
             (Type r = QoSRegionTypeShare \<longrightarrow> 0 \<le>s regionKnob r ControlKnobNonReclaimedCPUSize)
             \<and> (Type r = QoSRegionTypeIsolation \<longrightarrow> 0 \<le>s regionKnob r ControlKnobNonReclaimedCPUSizeUpper)"
    using Cons.prems(2) by simp
  have "demandTotal (kr # rs) = demandTotal [(k, r)] + demandTotal rs"
    by (simp add: kr demandTotal_def)
  then show ?case
    using Cons.IH [OF rest tail, of "t + demandTotal [(k, r)]"] inv1 by simp
qed

subsection \<open>Unfolding the model on the examples\<close>

lemmas model_defs =
  ToSliceInt_def Pods_def PopAny_def knobValue_def zeroResult_def SetPoolEntry_def poolEntry_def
  PoolNameReserve_def PoolNameReclaim_def FakedNUMAID_def GetPoolSize_def PodEnableReclaim_def
  getNumasReservedForReclaim_def getNumasAvailableResource_def MergeMapInt_def SumUpMapValues_def
  clampSize_def scaleDown_def regulatePoolSizes_def regulatePoolSizes64_def intSizes_def
  goSizes_def word_sless_alt word_sle_eq initState_def regionStep_def
  shareAndIsolatedPoolAvailable_def shareAndIsolatePoolSizes_def fillPoolEntries_def
  AssembleProvision_flow regionKnob_def shareSizesOf_def isolationSizesOf_def demandTotal_def
  Let_def

lemmas example_defs =
  exMetaServer_def exRegion_def exShare_def exIsolation_def exDedicatedOn_def exDedicatedOff_def
  exDedicatedUnreserved_def exDedicatedLost_def exNoPods_def exNoPodsBroken_def exTwoPods_def exUnbound_def
  exBroken_def exShareOf_def exNode_def exResult_def exNodeOf_def exDedicatedOnOf_def
  exNegativeShares_def exHugeShares_def

section \<open>The claims\<close>

text \<open>C1 (failure semantics): every return of \<open>AssembleProvision\<close> that carries an
  error carries the zero-value result, which holds no pool entry, and
  \<open>boundUpper = False\<close>. And the three failures return so: when the loop reaches a
  region (the regions before it in the iteration order went through) and that region's
  \<open>GetProvision\<close> returns an error, or it is a dedicated region bound to a NUMA node
  whose pod count is not one, or the reclaim lookup for its pod returns an error, the
  call returns the zero-value result, \<open>False\<close> and that error, whatever entries the
  earlier regions wrote.\<close>

theorem AssembleProvision_failure_zero_value:
  "(fst (AssembleProvision regulate pa) = Returned res boundUpper (Some err) \<longrightarrow>
      res = zeroResult \<and> boundUpper = False \<and> poolEntry res poolName numaID = None)
   \<and> (regionMap pa = pre @ (k, r) # post
        \<and> (\<exists>st. fst (loopRegions pa (initState pa) pre) = Cont st)
        \<and> (GetProvision r = Inl err'
            \<or> (\<exists>controlKnob. GetProvision r = Inr controlKnob
                  \<and> Type r = QoSRegionTypeDedicatedNumaExclusive
                  \<and> GetBindingNumas r \<noteq> []
                  \<and> (Pods (GetPods r) \<noteq> 1 \<and> err' = InvalidRegionAssignment (GetPods r)
                      \<or> (\<exists>podUID containers. GetPods r = [(podUID, containers)]
                            \<and> PodEnableReclaim (metaServer pa) podUID (EnableReclaim pa) = Inl err'))))
      \<longrightarrow> fst (AssembleProvision regulate pa) = Returned zeroResult False (Some err'))"
proof (rule conjI; rule impI)
  assume "fst (AssembleProvision regulate pa) = Returned res boundUpper (Some err)"
  then have z: "res = zeroResult \<and> boundUpper = False"
    by (rule AssembleProvision_error_cases)
  then show "res = zeroResult \<and> boundUpper = False \<and> poolEntry res poolName numaID = None"
    by (simp add: zeroResult_def poolEntry_def)
next
  assume a: "regionMap pa = pre @ (k, r) # post
        \<and> (\<exists>st. fst (loopRegions pa (initState pa) pre) = Cont st)
        \<and> (GetProvision r = Inl err'
            \<or> (\<exists>controlKnob. GetProvision r = Inr controlKnob
                  \<and> Type r = QoSRegionTypeDedicatedNumaExclusive
                  \<and> GetBindingNumas r \<noteq> []
                  \<and> (Pods (GetPods r) \<noteq> 1 \<and> err' = InvalidRegionAssignment (GetPods r)
                      \<or> (\<exists>podUID containers. GetPods r = [(podUID, containers)]
                            \<and> PodEnableReclaim (metaServer pa) podUID (EnableReclaim pa) = Inl err'))))"
  then obtain st where pre: "fst (loopRegions pa (initState pa) pre) = Cont st" by blast
  have step: "fst (regionStep pa st r) = Stop err'"
  proof -
    consider (provision) "GetProvision r = Inl err'"
      | (count) controlKnob where "GetProvision r = Inr controlKnob"
          "Type r = QoSRegionTypeDedicatedNumaExclusive" "GetBindingNumas r \<noteq> []"
          "Pods (GetPods r) \<noteq> 1" "err' = InvalidRegionAssignment (GetPods r)"
      | (lookup) controlKnob podUID containers where "GetProvision r = Inr controlKnob"
          "Type r = QoSRegionTypeDedicatedNumaExclusive" "GetBindingNumas r \<noteq> []"
          "GetPods r = [(podUID, containers)]"
          "PodEnableReclaim (metaServer pa) podUID (EnableReclaim pa) = Inl err'"
      using a by blast
    then show ?thesis
    proof cases
      case provision
      then show ?thesis by (rule regionStep_provision_error)
    next
      case count
      then show ?thesis using regionStep_pod_count [of r controlKnob pa st] by simp
    next
      case lookup
      obtain n ns where "ToSliceInt (GetBindingNumas r) = n # ns"
        using lookup(3) ToSliceInt_Nil [of "GetBindingNumas r"]
        by (cases "ToSliceInt (GetBindingNumas r)") auto
      then show ?thesis
        using regionStep_lookup [of r controlKnob n ns podUID containers pa st] lookup by simp
    qed
  qed
  have "fst (loopRegions pa (initState pa) (regionMap pa)) = Stop err'"
    using a step loopRegions_reach [OF pre, of k r post] by simp
  then show "fst (AssembleProvision regulate pa) = Returned zeroResult False (Some err')"
    by (rule AssembleProvision_Stop)
qed

text \<open>The dedicated region of the first snapshot writes the reclaim entry of NUMA node
  0 before the next region fails: the entry is not in what the call returns. The other
  two snapshots fail at the pod count and at the reclaim lookup.\<close>

theorem AssembleProvision_failure_zero_value_witness:
  "fst (loopRegions
          (exNode [(''dedicated-0'', exDedicatedOn), (''share-broken'', exBroken), (''share-region'', exShare)]
             [(''reserve'', 2)] True)
          (initState (exNode [(''dedicated-0'', exDedicatedOn), (''share-broken'', exBroken), (''share-region'', exShare)]
             [(''reserve'', 2)] True))
          [(''dedicated-0'', exDedicatedOn)])
     = Cont \<lparr>calculationResult = exResult [(''reserve'', [(- 1, 2)]), (''reclaim'', [(0, - 1)])],
             shares = 0, isolationUppers = 0,
             sharePoolSizes = [], isolationUpperSizes = [], isolationLowerSizes = []\<rparr>
   \<and> fst (AssembleProvision regulatePoolSizes64
          (exNode [(''dedicated-0'', exDedicatedOn), (''share-broken'', exBroken), (''share-region'', exShare)]
             [(''reserve'', 2)] True))
       = Returned zeroResult False (Some (ExternalError ''no provision''))
   \<and> fst (AssembleProvision regulatePoolSizes64
          (exNode [(''share-region'', exShare), (''dedicated-2'', exTwoPods)] [(''reserve'', 2)] True))
       = Returned zeroResult False
           (Some (InvalidRegionAssignment [(''pod-on'', [''main'']), (''pod-off'', [''main''])]))
   \<and> fst (AssembleProvision regulatePoolSizes64
          (exNode [(''share-region'', exShare), (''dedicated-2'', exDedicatedLost)] [(''reserve'', 2)] True))
       = Returned zeroResult False (Some (ExternalError ''pod not found''))"
  using
    AssembleProvision_failure_zero_value
      [where regulate = regulatePoolSizes64
         and pa = "exNode [(''dedicated-0'', exDedicatedOn), (''share-broken'', exBroken), (''share-region'', exShare)]
                     [(''reserve'', 2)] True"
         and pre = "[(''dedicated-0'', exDedicatedOn)]" and k = "''share-broken''" and r = exBroken
         and post = "[(''share-region'', exShare)]" and err' = "ExternalError ''no provision''"]
    AssembleProvision_failure_zero_value
      [where regulate = regulatePoolSizes64
         and pa = "exNode [(''share-region'', exShare), (''dedicated-2'', exTwoPods)] [(''reserve'', 2)] True"
         and pre = "[(''share-region'', exShare)]" and k = "''dedicated-2''" and r = exTwoPods
         and post = "[]"
         and err' = "InvalidRegionAssignment [(''pod-on'', [''main'']), (''pod-off'', [''main''])]"]
    AssembleProvision_failure_zero_value
      [where regulate = regulatePoolSizes64
         and pa = "exNode [(''share-region'', exShare), (''dedicated-2'', exDedicatedLost)] [(''reserve'', 2)] True"
         and pre = "[(''share-region'', exShare)]" and k = "''dedicated-2''" and r = exDedicatedLost
         and post = "[]" and err' = "ExternalError ''pod not found''"]
  by (simp add: model_defs example_defs)

text \<open>C2 (fallback between upper and lower isolation sizes), as amended. When the loop
  goes through, \<open>shares\<close> and \<open>isolationUppers\<close> are the totals, in Go's integers,
  over the share and the isolation regions, and the three maps hold each name once, with
  the size of the last region of that name in the iteration order. For every regulator
  the call returns what the regulator makes of this demand: the share sizes merged with
  the isolation upper sizes if \<open>shares + isolationUppers \<le> shareAndIsolatedPoolAvailable\<close>
  in Go's integers, merged with the isolation lower sizes otherwise; what is available
  is the program's sum of \<open>numaAvailable\<close> over the non-binding NUMA nodes, which
  stands for the sum of the integers where that is in the range of \<open>GoInt\<close>. If no
  share size and no isolation upper size is negative and their total as integers is
  below \<open>2 ^ 63\<close>, the program's total is that integer; if it is then within what is
  available, the spec's regulator returns the demand as it is and the call returns
  \<open>boundUpper = True\<close>, and if it is beyond what is available, the demand handed to
  the regulator is built from the isolation lower sizes.\<close>

theorem fallback_to_lower_sizes:
  assumes loop: "fst (loopRegions pa (initState pa) (regionMap pa)) = Cont st"
  shows "shares st = (\<Sum>(k, r)\<leftarrow>regionMap pa. if Type r = QoSRegionTypeShare
                              then regionKnob r ControlKnobNonReclaimedCPUSize else 0)
       \<and> isolationUppers st = (\<Sum>(k, r)\<leftarrow>regionMap pa. if Type r = QoSRegionTypeIsolation
                              then regionKnob r ControlKnobNonReclaimedCPUSizeUpper else 0)
       \<and> map_of (sharePoolSizes st) = map_of (rev (shareSizesOf (regionMap pa)))
       \<and> map_of (isolationUpperSizes st) =
            map_of (rev (isolationSizesOf ControlKnobNonReclaimedCPUSizeUpper (regionMap pa)))
       \<and> map_of (isolationLowerSizes st) =
            map_of (rev (isolationSizesOf ControlKnobNonReclaimedCPUSizeLower (regionMap pa)))
       \<and> distinct (map fst (sharePoolSizes st))
       \<and> distinct (map fst (isolationUpperSizes st))
       \<and> distinct (map fst (isolationLowerSizes st))
       \<and> (\<forall>regulate. fst (AssembleProvision regulate pa) =
            (let demand =
                   (if shares st + isolationUppers st \<le>s shareAndIsolatedPoolAvailable pa
                    then MergeMapInt (sharePoolSizes st) (isolationUpperSizes st)
                    else MergeMapInt (sharePoolSizes st) (isolationLowerSizes st));
                 regulated = regulate demand (shareAndIsolatedPoolAvailable pa) (EnableReclaim pa)
             in Returned (fillPoolEntries pa (calculationResult st) (fst regulated)) (snd regulated) None))
       \<and> shareAndIsolatedPoolAvailable pa =
            (\<Sum>id\<in>set (nonBindingNumas pa). case map_of (numaAvailable pa) id of Some v \<Rightarrow> v | None \<Rightarrow> 0)
       \<and> (let capacity =
                 (\<Sum>id\<in>set (nonBindingNumas pa). case map_of (numaAvailable pa) id of Some v \<Rightarrow> sint v | None \<Rightarrow> 0)
           in - (2 ^ 63) \<le> capacity \<and> capacity < 2 ^ 63
                \<longrightarrow> sint (shareAndIsolatedPoolAvailable pa) = capacity)
       \<and> ((\<forall>(k, r)\<in>set (regionMap pa).
               (Type r = QoSRegionTypeShare \<longrightarrow> 0 \<le>s regionKnob r ControlKnobNonReclaimedCPUSize)
               \<and> (Type r = QoSRegionTypeIsolation \<longrightarrow> 0 \<le>s regionKnob r ControlKnobNonReclaimedCPUSizeUpper))
            \<and> demandTotal (regionMap pa) < 2 ^ 63
          \<longrightarrow> sint (shares st + isolationUppers st) = demandTotal (regionMap pa)
              \<and> (demandTotal (regionMap pa) \<le> sint (shareAndIsolatedPoolAvailable pa)
                  \<longrightarrow> regulatePoolSizes64 (MergeMapInt (sharePoolSizes st) (isolationUpperSizes st))
                          (shareAndIsolatedPoolAvailable pa) (EnableReclaim pa)
                        = (MergeMapInt (sharePoolSizes st) (isolationUpperSizes st), True)
                      \<and> fst (AssembleProvision regulatePoolSizes64 pa) =
                          Returned (fillPoolEntries pa (calculationResult st)
                                      (MergeMapInt (sharePoolSizes st) (isolationUpperSizes st))) True None)
              \<and> (sint (shareAndIsolatedPoolAvailable pa) < demandTotal (regionMap pa)
                  \<longrightarrow> (\<forall>regulate. fst (AssembleProvision regulate pa) =
                         (let regulated = regulate (MergeMapInt (sharePoolSizes st) (isolationLowerSizes st))
                                            (shareAndIsolatedPoolAvailable pa) (EnableReclaim pa)
                          in Returned (fillPoolEntries pa (calculationResult st) (fst regulated))
                               (snd regulated) None))))"
proof -
  have totals: "shares st = (\<Sum>(k, r)\<leftarrow>regionMap pa. if Type r = QoSRegionTypeShare
                              then regionKnob r ControlKnobNonReclaimedCPUSize else 0)"
       "isolationUppers st = (\<Sum>(k, r)\<leftarrow>regionMap pa. if Type r = QoSRegionTypeIsolation
                              then regionKnob r ControlKnobNonReclaimedCPUSizeUpper else 0)"
    using loopRegions_totals [OF loop] by (simp_all add: initState_def Let_def)
  have sizes: "map_of (sharePoolSizes st) = map_of (rev (shareSizesOf (regionMap pa)))"
       "map_of (isolationUpperSizes st) =
            map_of (rev (isolationSizesOf ControlKnobNonReclaimedCPUSizeUpper (regionMap pa)))"
       "map_of (isolationLowerSizes st) =
            map_of (rev (isolationSizesOf ControlKnobNonReclaimedCPUSizeLower (regionMap pa)))"
    using loopRegions_sizes [OF loop] by (simp_all add: initState_def Let_def)
  have keys: "distinct (map fst (sharePoolSizes st))"
       "distinct (map fst (isolationUpperSizes st))"
       "distinct (map fst (isolationLowerSizes st))"
    using loopRegions_keys [OF loop] by (simp_all add: initState_def Let_def)
  have any: "fst (AssembleProvision regulate pa) =
            (let demand =
                   (if shares st + isolationUppers st \<le>s shareAndIsolatedPoolAvailable pa
                    then MergeMapInt (sharePoolSizes st) (isolationUpperSizes st)
                    else MergeMapInt (sharePoolSizes st) (isolationLowerSizes st));
                 regulated = regulate demand (shareAndIsolatedPoolAvailable pa) (EnableReclaim pa)
             in Returned (fillPoolEntries pa (calculationResult st) (fst regulated)) (snd regulated) None)"
    for regulate
    by (simp add: AssembleProvision_flow loop shareAndIsolatePoolSizes_def Let_def sle_not_sless)
  have avail: "shareAndIsolatedPoolAvailable pa =
            (\<Sum>id\<in>set (nonBindingNumas pa). case map_of (numaAvailable pa) id of Some v \<Rightarrow> v | None \<Rightarrow> 0)"
    by (simp add: shareAndIsolatedPoolAvailable_def getNumasAvailableResource_sum)
  define cap where "cap =
      (\<Sum>id\<in>set (nonBindingNumas pa). case map_of (numaAvailable pa) id of Some v \<Rightarrow> sint v | None \<Rightarrow> 0)"
  have "word_of_int cap = shareAndIsolatedPoolAvailable pa"
    unfolding cap_def avail by (simp add: word_of_int_lookup)
  then have "- (2 ^ 63) \<le> cap \<and> cap < 2 ^ 63 \<longrightarrow> sint (shareAndIsolatedPoolAvailable pa) = cap"
    using sint_of_value [of cap "shareAndIsolatedPoolAvailable pa"] by simp
  then have capacity: "(let capacity =
                 (\<Sum>id\<in>set (nonBindingNumas pa). case map_of (numaAvailable pa) id of Some v \<Rightarrow> sint v | None \<Rightarrow> 0)
           in - (2 ^ 63) \<le> capacity \<and> capacity < 2 ^ 63
                \<longrightarrow> sint (shareAndIsolatedPoolAvailable pa) = capacity)"
    unfolding cap_def by (simp add: Let_def)
  have upper: "sint (shares st + isolationUppers st) = demandTotal (regionMap pa)
              \<and> (demandTotal (regionMap pa) \<le> sint (shareAndIsolatedPoolAvailable pa)
                  \<longrightarrow> regulatePoolSizes64 (MergeMapInt (sharePoolSizes st) (isolationUpperSizes st))
                          (shareAndIsolatedPoolAvailable pa) (EnableReclaim pa)
                        = (MergeMapInt (sharePoolSizes st) (isolationUpperSizes st), True)
                      \<and> fst (AssembleProvision regulatePoolSizes64 pa) =
                          Returned (fillPoolEntries pa (calculationResult st)
                                      (MergeMapInt (sharePoolSizes st) (isolationUpperSizes st))) True None)
              \<and> (sint (shareAndIsolatedPoolAvailable pa) < demandTotal (regionMap pa)
                  \<longrightarrow> (\<forall>regulate. fst (AssembleProvision regulate pa) =
                         (let regulated = regulate (MergeMapInt (sharePoolSizes st) (isolationLowerSizes st))
                                            (shareAndIsolatedPoolAvailable pa) (EnableReclaim pa)
                          in Returned (fillPoolEntries pa (calculationResult st) (fst regulated))
                               (snd regulated) None)))"
    if nonneg: "\<forall>(k, r)\<in>set (regionMap pa).
               (Type r = QoSRegionTypeShare \<longrightarrow> 0 \<le>s regionKnob r ControlKnobNonReclaimedCPUSize)
               \<and> (Type r = QoSRegionTypeIsolation \<longrightarrow> 0 \<le>s regionKnob r ControlKnobNonReclaimedCPUSizeUpper)"
      and range: "demandTotal (regionMap pa) < 2 ^ 63"
  proof -
    have "shares st + isolationUppers st = word_of_int (demandTotal (regionMap pa))"
      using loopRegions_go_totals [OF loop] by (simp add: initState_def Let_def)
    moreover have "0 \<le> demandTotal (regionMap pa)"
      by (rule demandTotal_nonneg [OF nonneg])
    ultimately have total: "sint (shares st + isolationUppers st) = demandTotal (regionMap pa)"
      using range sint_word_of_int64 [of "demandTotal (regionMap pa)"] by simp
    have inv: "(\<forall>(k, v)\<in>set (intSizes (sharePoolSizes st)). 0 \<le> v)
         \<and> (\<forall>(k, v)\<in>set (intSizes (isolationUpperSizes st)). 0 \<le> v)
         \<and> SumUpMapValues (intSizes (sharePoolSizes st)) + SumUpMapValues (intSizes (isolationUpperSizes st))
             \<le> 0 + demandTotal (regionMap pa)"
      by (rule loopRegions_within_totals [OF loop nonneg])
         (simp_all add: initState_def Let_def SumUpMapValues_def intSizes_def)
    have fits: "SumUpMapValues (intSizes (MergeMapInt (sharePoolSizes st) (isolationUpperSizes st)))
                  \<le> demandTotal (regionMap pa)"
      using MergeMapInt_nonneg [of "intSizes (sharePoolSizes st)" "intSizes (isolationUpperSizes st)"] inv
      by (simp add: intSizes_MergeMapInt)
    have granted: "regulatePoolSizes64 (MergeMapInt (sharePoolSizes st) (isolationUpperSizes st))
                          (shareAndIsolatedPoolAvailable pa) (EnableReclaim pa)
                        = (MergeMapInt (sharePoolSizes st) (isolationUpperSizes st), True)
                      \<and> fst (AssembleProvision regulatePoolSizes64 pa) =
                          Returned (fillPoolEntries pa (calculationResult st)
                                      (MergeMapInt (sharePoolSizes st) (isolationUpperSizes st))) True None"
      if within: "demandTotal (regionMap pa) \<le> sint (shareAndIsolatedPoolAvailable pa)"
    proof -
      have reg: "regulatePoolSizes64 (MergeMapInt (sharePoolSizes st) (isolationUpperSizes st))
                          (shareAndIsolatedPoolAvailable pa) (EnableReclaim pa)
                        = (MergeMapInt (sharePoolSizes st) (isolationUpperSizes st), True)"
        using fits within by (simp add: regulatePoolSizes64_def regulatePoolSizes_def goSizes_intSizes)
      have "shares st + isolationUppers st \<le>s shareAndIsolatedPoolAvailable pa"
        using total within by (simp add: word_sle_eq)
      with reg show ?thesis
        by (simp add: any [of regulatePoolSizes64] Let_def)
    qed
    have lower: "\<forall>regulate. fst (AssembleProvision regulate pa) =
                         (let regulated = regulate (MergeMapInt (sharePoolSizes st) (isolationLowerSizes st))
                                            (shareAndIsolatedPoolAvailable pa) (EnableReclaim pa)
                          in Returned (fillPoolEntries pa (calculationResult st) (fst regulated))
                               (snd regulated) None)"
      if beyond: "sint (shareAndIsolatedPoolAvailable pa) < demandTotal (regionMap pa)"
    proof -
      have "\<not> shares st + isolationUppers st \<le>s shareAndIsolatedPoolAvailable pa"
        using total beyond by (simp add: word_sle_eq)
      then show ?thesis
        by (simp add: any Let_def)
    qed
    from total granted lower show ?thesis by blast
  qed
  from totals sizes keys any avail capacity upper show ?thesis by blast
qed

text \<open>Share 5 and isolation 4 (upper) fit the ten CPUs of the non-binding NUMA node:
  the upper size is granted. Share 7 and isolation 4 do not: the lower size 2 is the
  demand.\<close>

theorem fallback_to_lower_sizes_witness:
  "fst (AssembleProvision regulatePoolSizes64
          (exNode [(''share-region'', exShare), (''isolation-0'', exIsolation)] [(''reserve'', 2)] True))
     = Returned (exResult [(''reserve'', [(- 1, 2)]), (''share'', [(- 1, 5)]),
                           (''isolation-0'', [(- 1, 4)]), (''reclaim'', [(- 1, 2)])]) True None
   \<and> fst (AssembleProvision regulatePoolSizes64
          (exNode [(''share-region'', exShareOf 7), (''isolation-0'', exIsolation)] [(''reserve'', 2)] True))
     = Returned (exResult [(''reserve'', [(- 1, 2)]), (''share'', [(- 1, 7)]),
                           (''isolation-0'', [(- 1, 2)]), (''reclaim'', [(- 1, 2)])]) True None"
proof -
  let ?paA = "exNode [(''share-region'', exShare), (''isolation-0'', exIsolation)] [(''reserve'', 2)] True"
  let ?paB = "exNode [(''share-region'', exShareOf 7), (''isolation-0'', exIsolation)] [(''reserve'', 2)] True"
  have loopA: "fst (loopRegions ?paA (initState ?paA) (regionMap ?paA)) =
      Cont \<lparr>calculationResult = exResult [(''reserve'', [(- 1, 2)])], shares = 5, isolationUppers = 4,
            sharePoolSizes = [(''share'', 5)], isolationUpperSizes = [(''isolation-0'', 4)],
            isolationLowerSizes = [(''isolation-0'', 2)]\<rparr>"
    by (simp add: model_defs example_defs)
  have loopB: "fst (loopRegions ?paB (initState ?paB) (regionMap ?paB)) =
      Cont \<lparr>calculationResult = exResult [(''reserve'', [(- 1, 2)])], shares = 7, isolationUppers = 4,
            sharePoolSizes = [(''share'', 7)], isolationUpperSizes = [(''isolation-0'', 4)],
            isolationLowerSizes = [(''isolation-0'', 2)]\<rparr>"
    by (simp add: model_defs example_defs)
  show ?thesis
    using fallback_to_lower_sizes [OF loopA] fallback_to_lower_sizes [OF loopB]
    by (simp add: model_defs example_defs demandTotal_def shareSizesOf_def isolationSizesOf_def)
qed

text \<open>The claim as stated fails where a size is negative and where the total leaves the
  range of Go's integers. Two share regions of the same owner pool with sizes \<open>-8\<close>
  and \<open>14\<close> total 6, within the ten CPUs available, yet the pool's demand is the 14
  written last, which the regulator cuts to 10, returning \<open>boundUpper = False\<close>. Two
  share regions of \<open>2 ^ 62\<close> and an isolation region with the upper size 4 total more
  than ten, yet the program's total wraps to a negative number: the demand keeps the
  upper size 4, not the lower size 2, and the regulator cuts it.\<close>

theorem fallback_to_lower_sizes_counterexample:
  "fst (loopRegions exNegativeShares (initState exNegativeShares) (regionMap exNegativeShares))
     = Cont \<lparr>calculationResult = exResult [(''reserve'', [(- 1, 2)])], shares = 6, isolationUppers = 0,
             sharePoolSizes = [(''share'', 14)], isolationUpperSizes = [], isolationLowerSizes = []\<rparr>
   \<and> shareAndIsolatedPoolAvailable exNegativeShares = 10
   \<and> (6::GoInt) + 0 \<le>s 10
   \<and> regulatePoolSizes64 (MergeMapInt [(''share'', 14)] []) 10 True = ([(''share'', 10)], False)
   \<and> fst (AssembleProvision regulatePoolSizes64 exNegativeShares)
     = Returned (exResult [(''reserve'', [(- 1, 2)]), (''share'', [(- 1, 10)]), (''reclaim'', [(- 1, 1)])])
         False None
   \<and> fst (loopRegions exHugeShares (initState exHugeShares) (regionMap exHugeShares))
     = Cont \<lparr>calculationResult = exResult [(''reserve'', [(- 1, 2)])],
             shares = 4611686018427387904 + 4611686018427387904, isolationUppers = 4,
             sharePoolSizes = [(''share'', 4611686018427387904)],
             isolationUpperSizes = [(''isolation-0'', 4)], isolationLowerSizes = [(''isolation-0'', 2)]\<rparr>
   \<and> shareAndIsolatedPoolAvailable exHugeShares = 10
   \<and> 0 \<le>s (4611686018427387904::GoInt)
   \<and> demandTotal (regionMap exHugeShares) = 9223372036854775812
   \<and> sint (4611686018427387904 + 4611686018427387904 + 4 :: GoInt) = - 9223372036854775804
   \<and> (4611686018427387904 + 4611686018427387904 + 4 :: GoInt) \<le>s 10
   \<and> shareAndIsolatePoolSizes exHugeShares
        \<lparr>calculationResult = exResult [(''reserve'', [(- 1, 2)])],
         shares = 4611686018427387904 + 4611686018427387904, isolationUppers = 4,
         sharePoolSizes = [(''share'', 4611686018427387904)],
         isolationUpperSizes = [(''isolation-0'', 4)], isolationLowerSizes = [(''isolation-0'', 2)]\<rparr>
     = [(''share'', 4611686018427387904), (''isolation-0'', 4)]
   \<and> regulatePoolSizes64 [(''share'', 4611686018427387904), (''isolation-0'', 4)] 10 True
     = ([(''share'', 10), (''isolation-0'', 0)], False)
   \<and> fst (AssembleProvision regulatePoolSizes64 exHugeShares)
     = Returned (exResult [(''reserve'', [(- 1, 2)]), (''share'', [(- 1, 10)]),
                           (''isolation-0'', [(- 1, 0)]), (''reclaim'', [(- 1, 1)])])
         False None"
  by (simp add: model_defs example_defs)

text \<open>C3 (node-wide reclaim entry): whatever the regulator, a call that returns no error
  returns a result with exactly one reclaim entry under the node-wide sentinel (the
  reclaim pool is there once, and the sentinel once under it), whose value is, with node
  reclaim enabled, the capacity of the non-binding NUMA nodes (the sum of
  \<open>numaAvailable\<close> over them) minus the sum of the regulated sizes plus the sum of
  \<open>reservedForReclaim\<close> over the non-binding NUMA nodes, and with node reclaim
  disabled that last sum alone. It is the last entry written, so nothing overwrites it.
  The sums and the difference are those of the program, in Go's integers; where the
  value of the same expression over the integers is in the range of \<open>GoInt\<close>, the
  entry stands for that integer.\<close>

theorem node_wide_reclaim_entry:
  "fst (AssembleProvision regulate pa) = Returned res boundUpper None \<longrightarrow>
     (\<exists>st reclaimPoolSize m.
        fst (loopRegions pa (initState pa) (regionMap pa)) = Cont st
        \<and> shareAndIsolatedPoolAvailable pa =
            (\<Sum>id\<in>set (nonBindingNumas pa). case map_of (numaAvailable pa) id of Some v \<Rightarrow> v | None \<Rightarrow> 0)
        \<and> reclaimPoolSize =
            (if EnableReclaim pa
             then shareAndIsolatedPoolAvailable pa
                    - SumUpMapValues (fst (regulate (shareAndIsolatePoolSizes pa st)
                        (shareAndIsolatedPoolAvailable pa) (EnableReclaim pa)))
                    + (\<Sum>id\<in>set (nonBindingNumas pa). case map_of (reservedForReclaim pa) id of Some v \<Rightarrow> v | None \<Rightarrow> 0)
             else (\<Sum>id\<in>set (nonBindingNumas pa). case map_of (reservedForReclaim pa) id of Some v \<Rightarrow> v | None \<Rightarrow> 0))
        \<and> poolEntry res PoolNameReclaim FakedNUMAID = Some reclaimPoolSize
        \<and> filter (\<lambda>(poolName, entries). poolName = PoolNameReclaim) (PoolEntries res)
            = [(PoolNameReclaim, m)]
        \<and> filter (\<lambda>(numaID, poolSize). numaID = FakedNUMAID) m = [(FakedNUMAID, reclaimPoolSize)]
        \<and> (let amount =
                 (if EnableReclaim pa
                  then (\<Sum>id\<in>set (nonBindingNumas pa). case map_of (numaAvailable pa) id of Some v \<Rightarrow> sint v | None \<Rightarrow> 0)
                         - SumUpMapValues (intSizes (fst (regulate (shareAndIsolatePoolSizes pa st)
                             (shareAndIsolatedPoolAvailable pa) (EnableReclaim pa))))
                         + (\<Sum>id\<in>set (nonBindingNumas pa). case map_of (reservedForReclaim pa) id of Some v \<Rightarrow> sint v | None \<Rightarrow> 0)
                  else (\<Sum>id\<in>set (nonBindingNumas pa). case map_of (reservedForReclaim pa) id of Some v \<Rightarrow> sint v | None \<Rightarrow> 0))
            in - (2 ^ 63) \<le> amount \<and> amount < 2 ^ 63 \<longrightarrow> sint reclaimPoolSize = amount))"
proof
  assume ok: "fst (AssembleProvision regulate pa) = Returned res boundUpper None"
  then obtain st where loop: "fst (loopRegions pa (initState pa) (regionMap pa)) = Cont st"
    and res: "res = fillPoolEntries pa (calculationResult st)
            (fst (regulate (shareAndIsolatePoolSizes pa st) (shareAndIsolatedPoolAvailable pa) (EnableReclaim pa)))"
    by (rule AssembleProvision_success)
  define reclaimPoolSize where "reclaimPoolSize =
            (if EnableReclaim pa
             then shareAndIsolatedPoolAvailable pa
                    - SumUpMapValues (fst (regulate (shareAndIsolatePoolSizes pa st)
                        (shareAndIsolatedPoolAvailable pa) (EnableReclaim pa)))
                    + (\<Sum>id\<in>set (nonBindingNumas pa). case map_of (reservedForReclaim pa) id of Some v \<Rightarrow> v | None \<Rightarrow> 0)
             else (\<Sum>id\<in>set (nonBindingNumas pa). case map_of (reservedForReclaim pa) id of Some v \<Rightarrow> v | None \<Rightarrow> 0))"
  define val where "val =
                 (if EnableReclaim pa
                  then (\<Sum>id\<in>set (nonBindingNumas pa). case map_of (numaAvailable pa) id of Some v \<Rightarrow> sint v | None \<Rightarrow> 0)
                         - SumUpMapValues (intSizes (fst (regulate (shareAndIsolatePoolSizes pa st)
                             (shareAndIsolatedPoolAvailable pa) (EnableReclaim pa))))
                         + (\<Sum>id\<in>set (nonBindingNumas pa). case map_of (reservedForReclaim pa) id of Some v \<Rightarrow> sint v | None \<Rightarrow> 0)
                  else (\<Sum>id\<in>set (nonBindingNumas pa). case map_of (reservedForReclaim pa) id of Some v \<Rightarrow> sint v | None \<Rightarrow> 0))"
  have avail: "shareAndIsolatedPoolAvailable pa =
      (\<Sum>id\<in>set (nonBindingNumas pa). case map_of (numaAvailable pa) id of Some v \<Rightarrow> v | None \<Rightarrow> 0)"
    by (simp add: shareAndIsolatedPoolAvailable_def getNumasAvailableResource_sum)
  have entry: "poolEntry res PoolNameReclaim FakedNUMAID = Some reclaimPoolSize"
    unfolding res fillPoolEntries_reclaim getNumasReservedForReclaim_sum reclaimPoolSize_def ..
  obtain m where m: "filter (\<lambda>(poolName, entries). poolName = PoolNameReclaim) (PoolEntries res)
            = [(PoolNameReclaim, m)]"
    "filter (\<lambda>(numaID, poolSize). numaID = FakedNUMAID) m = [(FakedNUMAID, reclaimPoolSize)]"
    using one_entry [OF AssembleProvision_distinctEntries [OF ok] entry] by blast
  have "word_of_int val = reclaimPoolSize"
    unfolding val_def reclaimPoolSize_def avail
    by (simp add: word_of_int_lookup word_of_int_SumUpMapValues)
  then have "- (2 ^ 63) \<le> val \<and> val < 2 ^ 63 \<longrightarrow> sint reclaimPoolSize = val"
    using sint_of_value [of val reclaimPoolSize] by simp
  then have reading: "(let amount =
                 (if EnableReclaim pa
                  then (\<Sum>id\<in>set (nonBindingNumas pa). case map_of (numaAvailable pa) id of Some v \<Rightarrow> sint v | None \<Rightarrow> 0)
                         - SumUpMapValues (intSizes (fst (regulate (shareAndIsolatePoolSizes pa st)
                             (shareAndIsolatedPoolAvailable pa) (EnableReclaim pa))))
                         + (\<Sum>id\<in>set (nonBindingNumas pa). case map_of (reservedForReclaim pa) id of Some v \<Rightarrow> sint v | None \<Rightarrow> 0)
                  else (\<Sum>id\<in>set (nonBindingNumas pa). case map_of (reservedForReclaim pa) id of Some v \<Rightarrow> sint v | None \<Rightarrow> 0))
            in - (2 ^ 63) \<le> amount \<and> amount < 2 ^ 63 \<longrightarrow> sint reclaimPoolSize = amount)"
    unfolding val_def by (simp add: Let_def)
  from loop avail entry m reclaimPoolSize_def reading
  show "\<exists>st reclaimPoolSize m.
        fst (loopRegions pa (initState pa) (regionMap pa)) = Cont st
        \<and> shareAndIsolatedPoolAvailable pa =
            (\<Sum>id\<in>set (nonBindingNumas pa). case map_of (numaAvailable pa) id of Some v \<Rightarrow> v | None \<Rightarrow> 0)
        \<and> reclaimPoolSize =
            (if EnableReclaim pa
             then shareAndIsolatedPoolAvailable pa
                    - SumUpMapValues (fst (regulate (shareAndIsolatePoolSizes pa st)
                        (shareAndIsolatedPoolAvailable pa) (EnableReclaim pa)))
                    + (\<Sum>id\<in>set (nonBindingNumas pa). case map_of (reservedForReclaim pa) id of Some v \<Rightarrow> v | None \<Rightarrow> 0)
             else (\<Sum>id\<in>set (nonBindingNumas pa). case map_of (reservedForReclaim pa) id of Some v \<Rightarrow> v | None \<Rightarrow> 0))
        \<and> poolEntry res PoolNameReclaim FakedNUMAID = Some reclaimPoolSize
        \<and> filter (\<lambda>(poolName, entries). poolName = PoolNameReclaim) (PoolEntries res)
            = [(PoolNameReclaim, m)]
        \<and> filter (\<lambda>(numaID, poolSize). numaID = FakedNUMAID) m = [(FakedNUMAID, reclaimPoolSize)]
        \<and> (let amount =
                 (if EnableReclaim pa
                  then (\<Sum>id\<in>set (nonBindingNumas pa). case map_of (numaAvailable pa) id of Some v \<Rightarrow> sint v | None \<Rightarrow> 0)
                         - SumUpMapValues (intSizes (fst (regulate (shareAndIsolatePoolSizes pa st)
                             (shareAndIsolatedPoolAvailable pa) (EnableReclaim pa))))
                         + (\<Sum>id\<in>set (nonBindingNumas pa). case map_of (reservedForReclaim pa) id of Some v \<Rightarrow> sint v | None \<Rightarrow> 0)
                  else (\<Sum>id\<in>set (nonBindingNumas pa). case map_of (reservedForReclaim pa) id of Some v \<Rightarrow> sint v | None \<Rightarrow> 0))
            in - (2 ^ 63) \<le> amount \<and> amount < 2 ^ 63 \<longrightarrow> sint reclaimPoolSize = amount)"
    by blast
qed

text \<open>The spec's scenario: ten CPUs on the non-binding NUMA node, a share pool of 5 and
  a reservation of 1 give \<open>10 - 5 + 1 = 6\<close>; with node reclaim disabled, 1. And at
  the end of the range: the reservations \<open>2 ^ 63 - 1\<close> and 1 on two non-binding NUMA
  nodes add up, as the program adds them, to \<open>- 2 ^ 63\<close>.\<close>

theorem node_wide_reclaim_entry_witness:
  "fst (AssembleProvision regulatePoolSizes64 (exNode [(''share-region'', exShare)] [(''reserve'', 2)] True))
     = Returned (exResult [(''reserve'', [(- 1, 2)]), (''share'', [(- 1, 5)]), (''reclaim'', [(- 1, 6)])]) True None
   \<and> poolEntry (exResult [(''reserve'', [(- 1, 2)]), (''share'', [(- 1, 5)]), (''reclaim'', [(- 1, 6)])])
        PoolNameReclaim FakedNUMAID = Some 6
   \<and> fst (AssembleProvision regulatePoolSizes64 (exNode [(''share-region'', exShare)] [(''reserve'', 2)] False))
     = Returned (exResult [(''reserve'', [(- 1, 2)]), (''share'', [(- 1, 5)]), (''reclaim'', [(- 1, 1)])]) True None
   \<and> poolEntry (exResult [(''reserve'', [(- 1, 2)]), (''share'', [(- 1, 5)]), (''reclaim'', [(- 1, 1)])])
        PoolNameReclaim FakedNUMAID = Some 1
   \<and> fst (AssembleProvision regulatePoolSizes64
            (exNodeOf [(0, 9223372036854775807), (1, 1)] [(0, 10), (1, 10)] [0, 1] [] False))
     = Returned (exResult [(''reserve'', [(- 1, 2)]), (''reclaim'', [(- 1, 9223372036854775807 + 1)])]) True None
   \<and> sint (9223372036854775807 + 1 :: GoInt) = - 9223372036854775808"
  using
    node_wide_reclaim_entry
      [where regulate = regulatePoolSizes64
         and pa = "exNode [(''share-region'', exShare)] [(''reserve'', 2)] True"
         and res = "exResult [(''reserve'', [(- 1, 2)]), (''share'', [(- 1, 5)]), (''reclaim'', [(- 1, 6)])]"
         and boundUpper = True]
    node_wide_reclaim_entry
      [where regulate = regulatePoolSizes64
         and pa = "exNode [(''share-region'', exShare)] [(''reserve'', 2)] False"
         and res = "exResult [(''reserve'', [(- 1, 2)]), (''share'', [(- 1, 5)]), (''reclaim'', [(- 1, 1)])]"
         and boundUpper = True]
    node_wide_reclaim_entry
      [where regulate = regulatePoolSizes64
         and pa = "exNodeOf [(0, 9223372036854775807), (1, 1)] [(0, 10), (1, 10)] [0, 1] [] False"
         and res = "exResult [(''reserve'', [(- 1, 2)]), (''reclaim'', [(- 1, 9223372036854775807 + 1)])]"
         and boundUpper = True]
  by (simp add: model_defs example_defs exNodeOf_def)

text \<open>C4 (dedicated region, reclaim enabled): for a dedicated region with one pod whose
  reclaim is enabled, the body of the loop writes, from every state and whatever the
  value, the reclaim entry of the region's NUMA node: what is available on the NUMA nodes
  the region binds (the one NUMA node of a well-formed region), minus the region's
  \<open>NonReclaimedCPUSize\<close>, plus what is reserved for reclaim on them, ids absent
  from a map counting as zero. And the entry reaches the caller: in the result of a call
  that returns no error it is there with that value, negative or not, provided no region
  later in the iteration order is a dedicated region on the same NUMA node and the NUMA
  id is not the sentinel. The sums and the difference are those of the program, in Go's
  integers; where the value of the same expression over the integers is in the range of
  \<open>GoInt\<close>, the entry stands for that integer.\<close>

theorem dedicated_reclaim_enabled_entry:
  assumes "Type r = QoSRegionTypeDedicatedNumaExclusive"
      and "GetProvision r = Inr controlKnob"
      and "ToSliceInt (GetBindingNumas r) = regionNuma # others"
      and "GetPods r = [(podUID, containers)]"
      and "PodEnableReclaim (metaServer pa) podUID (EnableReclaim pa) = Inr True"
      and "reclaimed =
             (\<Sum>id\<in>set (GetBindingNumas r). case map_of (numaAvailable pa) id of Some v \<Rightarrow> v | None \<Rightarrow> 0)
               - knobValue controlKnob ControlKnobNonReclaimedCPUSize
               + (\<Sum>id\<in>set (GetBindingNumas r). case map_of (reservedForReclaim pa) id of Some v \<Rightarrow> v | None \<Rightarrow> 0)"
  shows "fst (regionStep pa st r) =
           Cont (st\<lparr>calculationResult :=
                   SetPoolEntry (calculationResult st) PoolNameReclaim regionNuma reclaimed\<rparr>)
         \<and> (regionMap pa = pre @ (k, r) # post
              \<and> fst (AssembleProvision regulate pa) = Returned res boundUpper None
              \<and> (\<forall>(k', r')\<in>set post. Type r' = QoSRegionTypeDedicatedNumaExclusive
                     \<longrightarrow> regionNuma \<notin> set (GetBindingNumas r'))
              \<and> regionNuma \<noteq> FakedNUMAID
            \<longrightarrow> poolEntry res PoolNameReclaim regionNuma = Some reclaimed)
         \<and> (let amount =
                   (\<Sum>id\<in>set (GetBindingNumas r). case map_of (numaAvailable pa) id of Some v \<Rightarrow> sint v | None \<Rightarrow> 0)
                     - sint (knobValue controlKnob ControlKnobNonReclaimedCPUSize)
                     + (\<Sum>id\<in>set (GetBindingNumas r). case map_of (reservedForReclaim pa) id of Some v \<Rightarrow> sint v | None \<Rightarrow> 0)
             in - (2 ^ 63) \<le> amount \<and> amount < 2 ^ 63 \<longrightarrow> sint reclaimed = amount)"
proof (intro conjI)
  have step: "fst (regionStep pa s r) =
           Cont (s\<lparr>calculationResult :=
                   SetPoolEntry (calculationResult s) PoolNameReclaim regionNuma reclaimed\<rparr>)"
    for s
    unfolding regionStep_lookup [OF assms(2) assms(1) assms(3) assms(4)] assms(5) assms(6)
    by (simp add: getNumasReservedForReclaim_sum getNumasAvailableResource_sum)
  show "fst (regionStep pa st r) =
           Cont (st\<lparr>calculationResult :=
                   SetPoolEntry (calculationResult st) PoolNameReclaim regionNuma reclaimed\<rparr>)"
    by (rule step)
  show "regionMap pa = pre @ (k, r) # post
              \<and> fst (AssembleProvision regulate pa) = Returned res boundUpper None
              \<and> (\<forall>(k', r')\<in>set post. Type r' = QoSRegionTypeDedicatedNumaExclusive
                     \<longrightarrow> regionNuma \<notin> set (GetBindingNumas r'))
              \<and> regionNuma \<noteq> FakedNUMAID
            \<longrightarrow> poolEntry res PoolNameReclaim regionNuma = Some reclaimed"
  proof
    assume a: "regionMap pa = pre @ (k, r) # post
              \<and> fst (AssembleProvision regulate pa) = Returned res boundUpper None
              \<and> (\<forall>(k', r')\<in>set post. Type r' = QoSRegionTypeDedicatedNumaExclusive
                     \<longrightarrow> regionNuma \<notin> set (GetBindingNumas r'))
              \<and> regionNuma \<noteq> FakedNUMAID"
    obtain st1 st2 where "fst (regionStep pa st1 r) = Cont st2"
      and "poolEntry res PoolNameReclaim regionNuma
             = poolEntry (calculationResult st2) PoolNameReclaim regionNuma"
      using dedicated_entry_survives [of pa pre k r post regulate res boundUpper regionNuma] a
      by blast
    then show "poolEntry res PoolNameReclaim regionNuma = Some reclaimed"
      using step [of st1] by (auto simp: poolEntry_SetPoolEntry)
  qed
  define val where "val =
                   (\<Sum>id\<in>set (GetBindingNumas r). case map_of (numaAvailable pa) id of Some v \<Rightarrow> sint v | None \<Rightarrow> 0)
                     - sint (knobValue controlKnob ControlKnobNonReclaimedCPUSize)
                     + (\<Sum>id\<in>set (GetBindingNumas r). case map_of (reservedForReclaim pa) id of Some v \<Rightarrow> sint v | None \<Rightarrow> 0)"
  have "word_of_int val = reclaimed"
    unfolding val_def assms(6)
    by (simp add: word_of_int_lookup word_of_int_sint64)
  then have "- (2 ^ 63) \<le> val \<and> val < 2 ^ 63 \<longrightarrow> sint reclaimed = val"
    using sint_of_value [of val reclaimed] by simp
  then show "(let amount =
                   (\<Sum>id\<in>set (GetBindingNumas r). case map_of (numaAvailable pa) id of Some v \<Rightarrow> sint v | None \<Rightarrow> 0)
                     - sint (knobValue controlKnob ControlKnobNonReclaimedCPUSize)
                     + (\<Sum>id\<in>set (GetBindingNumas r). case map_of (reservedForReclaim pa) id of Some v \<Rightarrow> sint v | None \<Rightarrow> 0)
             in - (2 ^ 63) \<le> amount \<and> amount < 2 ^ 63 \<longrightarrow> sint reclaimed = amount)"
    unfolding val_def by (simp add: Let_def)
qed

text \<open>Ten CPUs on NUMA node 0, a requirement of 12 and a reservation of 1: the entry is
  \<open>10 - 12 + 1 = -1\<close>. And at the end of the range: \<open>2 ^ 63 - 1\<close> CPUs, a
  requirement of \<open>-1\<close> and a reservation of 1 give, as the program computes it,
  \<open>- 2 ^ 63 + 1\<close>.\<close>

theorem dedicated_reclaim_enabled_entry_witness:
  "fst (AssembleProvision regulatePoolSizes64
          (exNode [(''dedicated-0'', exDedicatedOn), (''share-region'', exShare)] [(''reserve'', 2)] True))
     = Returned (exResult [(''reserve'', [(- 1, 2)]), (''reclaim'', [(0, - 1), (- 1, 6)]),
                           (''share'', [(- 1, 5)])]) True None
   \<and> poolEntry (exResult [(''reserve'', [(- 1, 2)]), (''reclaim'', [(0, - 1), (- 1, 6)]),
                           (''share'', [(- 1, 5)])]) PoolNameReclaim 0 = Some (- 1)
   \<and> sint (- 1 :: GoInt) = - 1
   \<and> fst (AssembleProvision regulatePoolSizes64
          (exNodeOf [(0, 1)] [(0, 9223372036854775807)] [1] [(''dedicated-0'', exDedicatedOnOf (- 1))] True))
     = Returned (exResult [(''reserve'', [(- 1, 2)]),
                           (''reclaim'', [(0, 9223372036854775807 - (- 1) + 1), (- 1, 0)])]) True None
   \<and> poolEntry (exResult [(''reserve'', [(- 1, 2)]),
                           (''reclaim'', [(0, 9223372036854775807 - (- 1) + 1), (- 1, 0)])]) PoolNameReclaim 0
        = Some (9223372036854775807 - (- 1) + 1)
   \<and> sint (9223372036854775807 - (- 1) + 1 :: GoInt) = - 9223372036854775807"
proof -
  let ?pa = "exNode [(''dedicated-0'', exDedicatedOn), (''share-region'', exShare)] [(''reserve'', 2)] True"
  let ?res = "exResult [(''reserve'', [(- 1, 2)]), (''reclaim'', [(0, - 1), (- 1, 6)]), (''share'', [(- 1, 5)])]"
  let ?pb = "exNodeOf [(0, 1)] [(0, 9223372036854775807)] [1] [(''dedicated-0'', exDedicatedOnOf (- 1))] True"
  let ?resb = "exResult [(''reserve'', [(- 1, 2)]),
                         (''reclaim'', [(0, 9223372036854775807 - (- 1) + 1), (- 1, 0)])]"
  have ok: "fst (AssembleProvision regulatePoolSizes64 ?pa) = Returned ?res True None"
    by (simp add: model_defs example_defs)
  have okb: "fst (AssembleProvision regulatePoolSizes64 ?pb) = Returned ?resb True None"
    by (simp add: model_defs example_defs)
  have h1: "Type exDedicatedOn = QoSRegionTypeDedicatedNumaExclusive"
    and h2: "GetProvision exDedicatedOn = Inr [(ControlKnobNonReclaimedCPUSize, 12)]"
    and h3: "ToSliceInt (GetBindingNumas exDedicatedOn) = 0 # []"
    and h4: "GetPods exDedicatedOn = [(''pod-on'', [''main''])]"
    and h5: "PodEnableReclaim (metaServer ?pa) ''pod-on'' (EnableReclaim ?pa) = Inr True"
    and h6: "- 1 =
             (\<Sum>id\<in>set (GetBindingNumas exDedicatedOn). case map_of (numaAvailable ?pa) id of Some v \<Rightarrow> v | None \<Rightarrow> 0)
               - knobValue [(ControlKnobNonReclaimedCPUSize, 12)] ControlKnobNonReclaimedCPUSize
               + (\<Sum>id\<in>set (GetBindingNumas exDedicatedOn). case map_of (reservedForReclaim ?pa) id of Some v \<Rightarrow> v | None \<Rightarrow> 0)"
    by (simp_all add: model_defs example_defs)
  have b1: "Type (exDedicatedOnOf (- 1)) = QoSRegionTypeDedicatedNumaExclusive"
    and b2: "GetProvision (exDedicatedOnOf (- 1)) = Inr [(ControlKnobNonReclaimedCPUSize, - 1)]"
    and b3: "ToSliceInt (GetBindingNumas (exDedicatedOnOf (- 1))) = 0 # []"
    and b4: "GetPods (exDedicatedOnOf (- 1)) = [(''pod-on'', [''main''])]"
    and b5: "PodEnableReclaim (metaServer ?pb) ''pod-on'' (EnableReclaim ?pb) = Inr True"
    and b6: "9223372036854775807 - (- 1) + 1 =
             (\<Sum>id\<in>set (GetBindingNumas (exDedicatedOnOf (- 1))). case map_of (numaAvailable ?pb) id of Some v \<Rightarrow> v | None \<Rightarrow> 0)
               - knobValue [(ControlKnobNonReclaimedCPUSize, - 1)] ControlKnobNonReclaimedCPUSize
               + (\<Sum>id\<in>set (GetBindingNumas (exDedicatedOnOf (- 1))). case map_of (reservedForReclaim ?pb) id of Some v \<Rightarrow> v | None \<Rightarrow> 0)"
    by (simp_all add: model_defs example_defs)
  have later: "regionMap ?pa = [] @ (''dedicated-0'', exDedicatedOn) # [(''share-region'', exShare)]
      \<and> (\<forall>(k', r')\<in>set [(''share-region'', exShare)]. Type r' = QoSRegionTypeDedicatedNumaExclusive
                    \<longrightarrow> 0 \<notin> set (GetBindingNumas r'))
      \<and> 0 \<noteq> FakedNUMAID"
    by (simp add: model_defs example_defs)
  have laterb: "regionMap ?pb = [] @ (''dedicated-0'', exDedicatedOnOf (- 1)) # []"
    by (simp add: model_defs example_defs)
  show ?thesis
    using dedicated_reclaim_enabled_entry [OF h1 h2 h3 h4 h5 h6,
        where pre = "[]" and k = "''dedicated-0''" and post = "[(''share-region'', exShare)]"
          and regulate = regulatePoolSizes64 and res = ?res and boundUpper = True]
      dedicated_reclaim_enabled_entry [OF b1 b2 b3 b4 b5 b6,
        where pre = "[]" and k = "''dedicated-0''" and post = "[]"
          and regulate = regulatePoolSizes64 and res = ?resb and boundUpper = True]
      ok okb later laterb
    by (simp add: FakedNUMAID_def)
qed

text \<open>C5 (dedicated region, reclaim disabled): for a dedicated region with one pod whose
  reclaim is disabled, the body of the loop, from every state, writes the reclaim entry
  of the region's NUMA node, equal to the reservation, if the reservation is positive,
  and writes nothing otherwise. And so the caller sees it: in the result of a call that
  returns no error, when no other dedicated region binds that NUMA node and its id is not
  the sentinel, the entry is the reservation if that is positive, and absent if not.\<close>

theorem dedicated_reclaim_disabled_entry:
  assumes "Type r = QoSRegionTypeDedicatedNumaExclusive"
      and "GetProvision r = Inr controlKnob"
      and "ToSliceInt (GetBindingNumas r) = regionNuma # others"
      and "GetPods r = [(podUID, containers)]"
      and "PodEnableReclaim (metaServer pa) podUID (EnableReclaim pa) = Inr False"
      and "reservation =
             (\<Sum>id\<in>set (GetBindingNumas r). case map_of (reservedForReclaim pa) id of Some v \<Rightarrow> v | None \<Rightarrow> 0)"
  shows "fst (regionStep pa st r) =
           (if 0 <s reservation
            then Cont (st\<lparr>calculationResult :=
                    SetPoolEntry (calculationResult st) PoolNameReclaim regionNuma reservation\<rparr>)
            else Cont st)
         \<and> (regionMap pa = pre @ (k, r) # post
              \<and> fst (AssembleProvision regulate pa) = Returned res boundUpper None
              \<and> (\<forall>(k', r')\<in>set (pre @ post). Type r' = QoSRegionTypeDedicatedNumaExclusive
                     \<longrightarrow> regionNuma \<notin> set (GetBindingNumas r'))
              \<and> regionNuma \<noteq> FakedNUMAID
            \<longrightarrow> poolEntry res PoolNameReclaim regionNuma =
                  (if 0 <s reservation then Some reservation else None))"
proof (rule conjI)
  have step: "fst (regionStep pa s r) =
           (if 0 <s reservation
            then Cont (s\<lparr>calculationResult :=
                    SetPoolEntry (calculationResult s) PoolNameReclaim regionNuma reservation\<rparr>)
            else Cont s)" for s
    unfolding regionStep_lookup [OF assms(2) assms(1) assms(3) assms(4)] assms(5) assms(6)
    by (simp add: getNumasReservedForReclaim_sum)
  show "fst (regionStep pa st r) =
           (if 0 <s reservation
            then Cont (st\<lparr>calculationResult :=
                    SetPoolEntry (calculationResult st) PoolNameReclaim regionNuma reservation\<rparr>)
            else Cont st)"
    by (rule step)
  show "regionMap pa = pre @ (k, r) # post
              \<and> fst (AssembleProvision regulate pa) = Returned res boundUpper None
              \<and> (\<forall>(k', r')\<in>set (pre @ post). Type r' = QoSRegionTypeDedicatedNumaExclusive
                     \<longrightarrow> regionNuma \<notin> set (GetBindingNumas r'))
              \<and> regionNuma \<noteq> FakedNUMAID
            \<longrightarrow> poolEntry res PoolNameReclaim regionNuma =
                  (if 0 <s reservation then Some reservation else None)"
  proof
    assume a: "regionMap pa = pre @ (k, r) # post
              \<and> fst (AssembleProvision regulate pa) = Returned res boundUpper None
              \<and> (\<forall>(k', r')\<in>set (pre @ post). Type r' = QoSRegionTypeDedicatedNumaExclusive
                     \<longrightarrow> regionNuma \<notin> set (GetBindingNumas r'))
              \<and> regionNuma \<noteq> FakedNUMAID"
    then have later: "\<forall>(k', r')\<in>set post. Type r' = QoSRegionTypeDedicatedNumaExclusive
                    \<longrightarrow> regionNuma \<notin> set (GetBindingNumas r')"
      and earlier: "\<forall>(k', r')\<in>set pre. Type r' = QoSRegionTypeDedicatedNumaExclusive
                    \<longrightarrow> regionNuma \<notin> set (GetBindingNumas r')"
      by auto
    obtain st1 st2 where pre: "fst (loopRegions pa (initState pa) pre) = Cont st1"
      and st2: "fst (regionStep pa st1 r) = Cont st2"
      and res: "poolEntry res PoolNameReclaim regionNuma
                  = poolEntry (calculationResult st2) PoolNameReclaim regionNuma"
      using dedicated_entry_survives [of pa pre k r post regulate res boundUpper regionNuma] a later
      by blast
    have "poolEntry (calculationResult st1) PoolNameReclaim regionNuma
            = poolEntry (calculationResult (initState pa)) PoolNameReclaim regionNuma"
      using loopRegions_entry_kept [OF pre, of PoolNameReclaim regionNuma] earlier by blast
    then have before: "poolEntry (calculationResult st1) PoolNameReclaim regionNuma = None"
      using a by (simp add: initState_entry)
    show "poolEntry res PoolNameReclaim regionNuma =
             (if 0 <s reservation then Some reservation else None)"
      using st2 res before step [of st1] by (auto simp: poolEntry_SetPoolEntry split: if_splits)
  qed
qed

text \<open>NUMA node 2 has a reservation of 3, NUMA node 3 has none: the first gets the entry
  3, the second no entry.\<close>

theorem dedicated_reclaim_disabled_entry_witness:
  "fst (AssembleProvision regulatePoolSizes64
          (exNode [(''dedicated-2'', exDedicatedOff), (''dedicated-3'', exDedicatedUnreserved),
                   (''share-region'', exShare)] [(''reserve'', 2)] True))
     = Returned (exResult [(''reserve'', [(- 1, 2)]), (''reclaim'', [(2, 3), (- 1, 6)]),
                           (''share'', [(- 1, 5)])]) True None
   \<and> poolEntry (exResult [(''reserve'', [(- 1, 2)]), (''reclaim'', [(2, 3), (- 1, 6)]),
                           (''share'', [(- 1, 5)])]) PoolNameReclaim 2 = Some 3
   \<and> poolEntry (exResult [(''reserve'', [(- 1, 2)]), (''reclaim'', [(2, 3), (- 1, 6)]),
                           (''share'', [(- 1, 5)])]) PoolNameReclaim 3 = None"
proof -
  let ?pa = "exNode [(''dedicated-2'', exDedicatedOff), (''dedicated-3'', exDedicatedUnreserved),
                   (''share-region'', exShare)] [(''reserve'', 2)] True"
  let ?res = "exResult [(''reserve'', [(- 1, 2)]), (''reclaim'', [(2, 3), (- 1, 6)]), (''share'', [(- 1, 5)])]"
  have ok: "fst (AssembleProvision regulatePoolSizes64 ?pa) = Returned ?res True None"
    by (simp add: model_defs example_defs)
  have lookup: "PodEnableReclaim (metaServer ?pa) ''pod-off'' (EnableReclaim ?pa) = Inr False"
    by (simp add: model_defs example_defs)
  have a1: "Type exDedicatedOff = QoSRegionTypeDedicatedNumaExclusive"
    and a2: "GetProvision exDedicatedOff = Inr [(ControlKnobNonReclaimedCPUSize, 6)]"
    and a3: "ToSliceInt (GetBindingNumas exDedicatedOff) = 2 # []"
    and a4: "GetPods exDedicatedOff = [(''pod-off'', [''main''])]"
    and a6: "3 = (\<Sum>id\<in>set (GetBindingNumas exDedicatedOff).
                     case map_of (reservedForReclaim ?pa) id of Some v \<Rightarrow> v | None \<Rightarrow> 0)"
    by (simp_all add: model_defs example_defs)
  have a: "regionMap ?pa = [] @ (''dedicated-2'', exDedicatedOff)
              # [(''dedicated-3'', exDedicatedUnreserved), (''share-region'', exShare)]
      \<and> (\<forall>(k', r')\<in>set ([] @ [(''dedicated-3'', exDedicatedUnreserved), (''share-region'', exShare)]).
                Type r' = QoSRegionTypeDedicatedNumaExclusive \<longrightarrow> 2 \<notin> set (GetBindingNumas r'))
      \<and> 2 \<noteq> FakedNUMAID"
    by (simp add: model_defs example_defs)
  have b1: "Type exDedicatedUnreserved = QoSRegionTypeDedicatedNumaExclusive"
    and b2: "GetProvision exDedicatedUnreserved = Inr [(ControlKnobNonReclaimedCPUSize, 6)]"
    and b3: "ToSliceInt (GetBindingNumas exDedicatedUnreserved) = 3 # []"
    and b4: "GetPods exDedicatedUnreserved = [(''pod-off'', [''main''])]"
    and b6: "0 = (\<Sum>id\<in>set (GetBindingNumas exDedicatedUnreserved).
                     case map_of (reservedForReclaim ?pa) id of Some v \<Rightarrow> v | None \<Rightarrow> 0)"
    by (simp_all add: model_defs example_defs)
  have b: "regionMap ?pa = [(''dedicated-2'', exDedicatedOff)]
              @ (''dedicated-3'', exDedicatedUnreserved) # [(''share-region'', exShare)]
      \<and> (\<forall>(k', r')\<in>set ([(''dedicated-2'', exDedicatedOff)] @ [(''share-region'', exShare)]).
                Type r' = QoSRegionTypeDedicatedNumaExclusive \<longrightarrow> 3 \<notin> set (GetBindingNumas r'))
      \<and> 3 \<noteq> FakedNUMAID"
    by (simp add: model_defs example_defs)
  show ?thesis
    using
      dedicated_reclaim_disabled_entry [OF a1 a2 a3 a4 lookup a6,
        where pre = "[]" and k = "''dedicated-2''"
          and post = "[(''dedicated-3'', exDedicatedUnreserved), (''share-region'', exShare)]"
          and regulate = regulatePoolSizes64 and res = ?res and boundUpper = True]
      dedicated_reclaim_disabled_entry [OF b1 b2 b3 b4 lookup b6,
        where pre = "[(''dedicated-2'', exDedicatedOff)]" and k = "''dedicated-3''"
          and post = "[(''share-region'', exShare)]"
          and regulate = regulatePoolSizes64 and res = ?res and boundUpper = True]
      ok a b
    by (simp add: word_sless_alt)
qed

text \<open>C6 (singleton check), as amended. A snapshot with a dedicated region whose pod
  count is not one never gives a plan: the call panics or returns the zero-value result,
  \<open>False\<close> and an error. When the call reaches the pod count of such a region (the
  regions before it in the iteration order went through, the region has a provision and
  binds a NUMA node), the error is the \<open>InvalidRegionAssignment\<close> built from the
  region's pod set.\<close>

theorem dedicated_pod_count_error:
  "((k, r) \<in> set (regionMap pa)
       \<and> Type r = QoSRegionTypeDedicatedNumaExclusive \<and> Pods (GetPods r) \<noteq> 1
     \<longrightarrow> fst (AssembleProvision regulate pa) = Panicked
          \<or> (\<exists>err. fst (AssembleProvision regulate pa) = Returned zeroResult False (Some err)))
   \<and> (regionMap pa = pre @ (k, r) # post
        \<and> (\<exists>st. fst (loopRegions pa (initState pa) pre) = Cont st)
        \<and> (\<exists>controlKnob. GetProvision r = Inr controlKnob)
        \<and> GetBindingNumas r \<noteq> []
        \<and> Type r = QoSRegionTypeDedicatedNumaExclusive \<and> Pods (GetPods r) \<noteq> 1
     \<longrightarrow> fst (AssembleProvision regulate pa)
           = Returned zeroResult False (Some (InvalidRegionAssignment (GetPods r))))"
proof (rule conjI; rule impI)
  assume a: "(k, r) \<in> set (regionMap pa)
       \<and> Type r = QoSRegionTypeDedicatedNumaExclusive \<and> Pods (GetPods r) \<noteq> 1"
  then have "\<And>st'. fst (loopRegions pa (initState pa) (regionMap pa)) \<noteq> Cont st'"
    using loopRegions_bad_pod_count [of k r "regionMap pa" pa "initState pa"] by blast
  then show "fst (AssembleProvision regulate pa) = Panicked
          \<or> (\<exists>err. fst (AssembleProvision regulate pa) = Returned zeroResult False (Some err))"
    unfolding AssembleProvision_flow
    by (cases "fst (loopRegions pa (initState pa) (regionMap pa))") auto
next
  assume a: "regionMap pa = pre @ (k, r) # post
        \<and> (\<exists>st. fst (loopRegions pa (initState pa) pre) = Cont st)
        \<and> (\<exists>controlKnob. GetProvision r = Inr controlKnob)
        \<and> GetBindingNumas r \<noteq> []
        \<and> Type r = QoSRegionTypeDedicatedNumaExclusive \<and> Pods (GetPods r) \<noteq> 1"
  then obtain st controlKnob where pre: "fst (loopRegions pa (initState pa) pre) = Cont st"
    and knob: "GetProvision r = Inr controlKnob" by blast
  have "fst (regionStep pa st r) = Stop (InvalidRegionAssignment (GetPods r))"
    using regionStep_pod_count [OF knob, of pa st] a by blast
  then have "fst (loopRegions pa (initState pa) (regionMap pa))
               = Stop (InvalidRegionAssignment (GetPods r))"
    using a loopRegions_reach [OF pre, of k r post] by simp
  then show "fst (AssembleProvision regulate pa)
           = Returned zeroResult False (Some (InvalidRegionAssignment (GetPods r)))"
    by (rule AssembleProvision_Stop)
qed

text \<open>A dedicated region without a pod, and one with two.\<close>

theorem dedicated_pod_count_error_witness:
  "fst (AssembleProvision regulatePoolSizes64
          (exNode [(''share-region'', exShare), (''dedicated-2'', exNoPods)] [(''reserve'', 2)] True))
     = Returned zeroResult False (Some (InvalidRegionAssignment []))
   \<and> fst (AssembleProvision regulatePoolSizes64
          (exNode [(''dedicated-2'', exTwoPods), (''share-region'', exShare)] [(''reserve'', 2)] True))
     = Returned zeroResult False
         (Some (InvalidRegionAssignment [(''pod-on'', [''main'']), (''pod-off'', [''main''])]))"
  using
    dedicated_pod_count_error
      [where regulate = regulatePoolSizes64
         and pa = "exNode [(''share-region'', exShare), (''dedicated-2'', exNoPods)] [(''reserve'', 2)] True"
         and pre = "[(''share-region'', exShare)]" and k = "''dedicated-2''" and r = exNoPods
         and post = "[]"]
    dedicated_pod_count_error
      [where regulate = regulatePoolSizes64
         and pa = "exNode [(''dedicated-2'', exTwoPods), (''share-region'', exShare)] [(''reserve'', 2)] True"
         and pre = "[]" and k = "''dedicated-2''" and r = exTwoPods
         and post = "[(''share-region'', exShare)]"]
  by (simp add: model_defs example_defs)

text \<open>The claim as stated fails for three snapshots that hold a dedicated region
  without a pod: a region that fails earlier in the iteration order decides the error;
  so does the failure of the region's own \<open>GetProvision\<close>; and a region that binds
  no NUMA node makes the call panic.\<close>

theorem dedicated_pod_count_error_counterexample:
  "Type exNoPods = QoSRegionTypeDedicatedNumaExclusive \<and> Pods (GetPods exNoPods) = 0
   \<and> fst (AssembleProvision regulatePoolSizes64
          (exNode [(''share-broken'', exBroken), (''dedicated-2'', exNoPods)] [(''reserve'', 2)] True))
       = Returned zeroResult False (Some (ExternalError ''no provision''))
   \<and> Type exNoPodsBroken = QoSRegionTypeDedicatedNumaExclusive \<and> Pods (GetPods exNoPodsBroken) = 0
   \<and> fst (AssembleProvision regulatePoolSizes64
          (exNode [(''dedicated-2'', exNoPodsBroken)] [(''reserve'', 2)] True))
       = Returned zeroResult False (Some (ExternalError ''no provision''))
   \<and> Type exUnbound = QoSRegionTypeDedicatedNumaExclusive \<and> Pods (GetPods exUnbound) = 0
   \<and> fst (AssembleProvision regulatePoolSizes64
          (exNode [(''dedicated-x'', exUnbound)] [(''reserve'', 2)] True))
       = Panicked"
  by (simp add: model_defs example_defs)

text \<open>C7 (sum bound of the regulator), as amended. For \<open>available \<ge> 0\<close> and every
  demand, the regulated sizes sum to at most \<open>available\<close>, and they sum to exactly
  \<open>available\<close> only if the demand was at least \<open>available\<close>.\<close>

theorem regulatePoolSizes_sum_bound:
  "0 \<le> available \<longrightarrow>
     SumUpMapValues (fst (regulatePoolSizes demand available enableReclaim)) \<le> available
     \<and> (SumUpMapValues (fst (regulatePoolSizes demand available enableReclaim)) = available
          \<longrightarrow> available \<le> SumUpMapValues demand)"
proof
  assume nonneg: "0 \<le> available"
  show "SumUpMapValues (fst (regulatePoolSizes demand available enableReclaim)) \<le> available
     \<and> (SumUpMapValues (fst (regulatePoolSizes demand available enableReclaim)) = available
          \<longrightarrow> available \<le> SumUpMapValues demand)"
  proof (cases "SumUpMapValues demand \<le> available")
    case True
    then show ?thesis by (simp add: regulatePoolSizes_def)
  next
    case False
    then have "SumUpMapValues (scaleDown demand available) = available"
      using scaleDown_sum nonneg by simp
    with False show ?thesis by (simp add: regulatePoolSizes_def)
  qed
qed

text \<open>A demand of 12 for 10 CPUs is cut to 4, 6 and 0, which sum to 10; a demand of 5
  is left at 5.\<close>

theorem regulatePoolSizes_sum_bound_witness:
  "SumUpMapValues (fst (regulatePoolSizes [(''share'', 5), (''isolation-0'', 7), (''idle'', 0)] 10 True)) = 10
   \<and> fst (regulatePoolSizes [(''share'', 5), (''isolation-0'', 7), (''idle'', 0)] 10 True)
        = [(''share'', 4), (''isolation-0'', 6), (''idle'', 0)]
   \<and> SumUpMapValues (fst (regulatePoolSizes [(''share'', 5)] 10 True)) = 5"
  using regulatePoolSizes_sum_bound [of 10 "[(''share'', 5), (''isolation-0'', 7), (''idle'', 0)]" True]
    regulatePoolSizes_sum_bound [of 10 "[(''share'', 5)]" True]
  by (simp add: regulatePoolSizes_def SumUpMapValues_def scaleDown_def clampSize_def)

text \<open>The claim as stated fails at the boundary and below zero: a demand of exactly
  \<open>available\<close> is returned unchanged, so the sizes sum to \<open>available\<close> though
  the demand did not exceed it; and for a negative \<open>available\<close> the empty demand
  sums to 0, above \<open>available\<close>.\<close>

theorem regulatePoolSizes_sum_bound_counterexample:
  "SumUpMapValues (fst (regulatePoolSizes [(''share'', 5)] 5 True)) = 5
   \<and> \<not> 5 < SumUpMapValues [(''share'', 5::int)]
   \<and> \<not> SumUpMapValues (fst (regulatePoolSizes [] (- 1) True)) \<le> - 1"
  by (simp add: regulatePoolSizes_def SumUpMapValues_def scaleDown_def)

text \<open>C9 (binding NUMA set of a dedicated region): the body of the loop reads the first
  bound NUMA id before it counts the pods and before the reclaim lookup. So it panics
  exactly for a dedicated region with a provision and an empty binding set, whatever its
  pods; reaching such a region makes the call panic instead of returning an error; and
  for a snapshot whose dedicated regions all bind a NUMA node the read is always within
  bounds, the call does not panic there.\<close>

theorem dedicated_unbound_panics:
  "(fst (regionStep pa st r) = Panic \<longleftrightarrow>
      (\<exists>controlKnob. GetProvision r = Inr controlKnob)
        \<and> Type r = QoSRegionTypeDedicatedNumaExclusive \<and> GetBindingNumas r = [])
   \<and> (regionMap pa = pre @ (k, r) # post
        \<and> (\<exists>st. fst (loopRegions pa (initState pa) pre) = Cont st)
        \<and> (\<exists>controlKnob. GetProvision r = Inr controlKnob)
        \<and> Type r = QoSRegionTypeDedicatedNumaExclusive \<and> GetBindingNumas r = []
      \<longrightarrow> fst (AssembleProvision regulate pa) = Panicked)
   \<and> ((\<forall>(k', r')\<in>set (regionMap pa).
          Type r' = QoSRegionTypeDedicatedNumaExclusive \<longrightarrow> GetBindingNumas r' \<noteq> [])
      \<longrightarrow> fst (AssembleProvision regulate pa) \<noteq> Panicked)"
proof (rule conjI)
  show "fst (regionStep pa st r) = Panic \<longleftrightarrow>
      (\<exists>controlKnob. GetProvision r = Inr controlKnob)
        \<and> Type r = QoSRegionTypeDedicatedNumaExclusive \<and> GetBindingNumas r = []"
    by (rule regionStep_panic_iff)
next
  show "(regionMap pa = pre @ (k, r) # post
        \<and> (\<exists>st. fst (loopRegions pa (initState pa) pre) = Cont st)
        \<and> (\<exists>controlKnob. GetProvision r = Inr controlKnob)
        \<and> Type r = QoSRegionTypeDedicatedNumaExclusive \<and> GetBindingNumas r = []
      \<longrightarrow> fst (AssembleProvision regulate pa) = Panicked)
   \<and> ((\<forall>(k', r')\<in>set (regionMap pa).
          Type r' = QoSRegionTypeDedicatedNumaExclusive \<longrightarrow> GetBindingNumas r' \<noteq> [])
      \<longrightarrow> fst (AssembleProvision regulate pa) \<noteq> Panicked)"
  proof (rule conjI; rule impI)
    assume a: "regionMap pa = pre @ (k, r) # post
        \<and> (\<exists>st. fst (loopRegions pa (initState pa) pre) = Cont st)
        \<and> (\<exists>controlKnob. GetProvision r = Inr controlKnob)
        \<and> Type r = QoSRegionTypeDedicatedNumaExclusive \<and> GetBindingNumas r = []"
    then obtain st1 where pre: "fst (loopRegions pa (initState pa) pre) = Cont st1" by blast
    have "fst (regionStep pa st1 r) = Panic"
      using a regionStep_panic_iff [of pa st1 r] by blast
    then have "fst (loopRegions pa (initState pa) (regionMap pa)) = Panic"
      using a loopRegions_reach [OF pre, of k r post] by simp
    then show "fst (AssembleProvision regulate pa) = Panicked"
      by (simp add: AssembleProvision_flow)
  next
    assume "\<forall>(k', r')\<in>set (regionMap pa).
          Type r' = QoSRegionTypeDedicatedNumaExclusive \<longrightarrow> GetBindingNumas r' \<noteq> []"
    then have "fst (loopRegions pa (initState pa) (regionMap pa)) \<noteq> Panic"
      by (rule loopRegions_no_panic)
    then show "fst (AssembleProvision regulate pa) \<noteq> Panicked"
      unfolding AssembleProvision_flow
      by (cases "fst (loopRegions pa (initState pa) (regionMap pa))") simp_all
  qed
qed

text \<open>A dedicated region that binds no NUMA node and has no pod: the call panics, it does
  not return the error of the pod count.\<close>

theorem dedicated_unbound_panics_witness:
  "fst (AssembleProvision regulatePoolSizes64
          (exNode [(''share-region'', exShare), (''dedicated-x'', exUnbound)] [(''reserve'', 2)] True))
     = Panicked
   \<and> Pods (GetPods exUnbound) = 0
   \<and> fst (AssembleProvision regulatePoolSizes64
          (exNode [(''share-region'', exShare), (''dedicated-2'', exNoPods)] [(''reserve'', 2)] True))
     \<noteq> Panicked"
  using
    dedicated_unbound_panics
      [where regulate = regulatePoolSizes64
         and pa = "exNode [(''share-region'', exShare), (''dedicated-x'', exUnbound)] [(''reserve'', 2)] True"
         and pre = "[(''share-region'', exShare)]" and k = "''dedicated-x''" and r = exUnbound
         and post = "[]"]
    dedicated_unbound_panics
      [where regulate = regulatePoolSizes64
         and pa = "exNode [(''share-region'', exShare), (''dedicated-2'', exNoPods)] [(''reserve'', 2)] True"]
  by (simp add: model_defs example_defs)

text \<open>C10 (reserve entry): the reserve entry under the node-wide sentinel is written
  before the loop, with the size the meta reader gives and 0 when it does not know the
  pool. In the result of a call that returns no error the entry is there with that size,
  unless a regulated pool is itself named \<open>reserve\<close>. And the meta reader has no part
  in failure: with any other meta reader the call returns the same error, or panics,
  exactly when it does with this one.\<close>

theorem reserve_entry_unconditional:
  "poolEntry (calculationResult (initState pa)) PoolNameReserve FakedNUMAID
     = Some (case map_of (metaReader pa) PoolNameReserve of Some v \<Rightarrow> v | None \<Rightarrow> 0)
   \<and> (fst (AssembleProvision regulate pa) = Returned res boundUpper None \<longrightarrow>
        (\<exists>st. fst (loopRegions pa (initState pa) (regionMap pa)) = Cont st
           \<and> (PoolNameReserve \<notin> fst ` set (fst (regulate (shareAndIsolatePoolSizes pa st)
                   (shareAndIsolatedPoolAvailable pa) (EnableReclaim pa)))
                \<longrightarrow> poolEntry res PoolNameReserve FakedNUMAID =
                      Some (case map_of (metaReader pa) PoolNameReserve of Some v \<Rightarrow> v | None \<Rightarrow> 0))))
   \<and> (fst (AssembleProvision regulate (pa\<lparr>metaReader := mr\<rparr>)) = Returned res' boundUpper' (Some err)
        \<longleftrightarrow> fst (AssembleProvision regulate pa) = Returned res' boundUpper' (Some err))
   \<and> (fst (AssembleProvision regulate (pa\<lparr>metaReader := mr\<rparr>)) = Panicked
        \<longleftrightarrow> fst (AssembleProvision regulate pa) = Panicked)"
proof (intro conjI)
  show "poolEntry (calculationResult (initState pa)) PoolNameReserve FakedNUMAID
     = Some (case map_of (metaReader pa) PoolNameReserve of Some v \<Rightarrow> v | None \<Rightarrow> 0)"
    by (simp add: initState_entry)
next
  show "fst (AssembleProvision regulate pa) = Returned res boundUpper None \<longrightarrow>
        (\<exists>st. fst (loopRegions pa (initState pa) (regionMap pa)) = Cont st
           \<and> (PoolNameReserve \<notin> fst ` set (fst (regulate (shareAndIsolatePoolSizes pa st)
                   (shareAndIsolatedPoolAvailable pa) (EnableReclaim pa)))
                \<longrightarrow> poolEntry res PoolNameReserve FakedNUMAID =
                      Some (case map_of (metaReader pa) PoolNameReserve of Some v \<Rightarrow> v | None \<Rightarrow> 0)))"
  proof
    assume "fst (AssembleProvision regulate pa) = Returned res boundUpper None"
    then show "\<exists>st. fst (loopRegions pa (initState pa) (regionMap pa)) = Cont st
           \<and> (PoolNameReserve \<notin> fst ` set (fst (regulate (shareAndIsolatePoolSizes pa st)
                   (shareAndIsolatedPoolAvailable pa) (EnableReclaim pa)))
                \<longrightarrow> poolEntry res PoolNameReserve FakedNUMAID =
                      Some (case map_of (metaReader pa) PoolNameReserve of Some v \<Rightarrow> v | None \<Rightarrow> 0))"
      using AssembleProvision_reserve_entry [of regulate pa res boundUpper] by blast
  qed
next
  show "fst (AssembleProvision regulate (pa\<lparr>metaReader := mr\<rparr>)) = Returned res' boundUpper' (Some err)
        \<longleftrightarrow> fst (AssembleProvision regulate pa) = Returned res' boundUpper' (Some err)"
    by (rule AssembleProvision_metaReader)
next
  show "fst (AssembleProvision regulate (pa\<lparr>metaReader := mr\<rparr>)) = Panicked
        \<longleftrightarrow> fst (AssembleProvision regulate pa) = Panicked"
    by (rule AssembleProvision_metaReader_panic)
qed

text \<open>A meta reader that knows no pool: the call returns a plan, with a reserve entry of
  0.\<close>

theorem reserve_entry_unconditional_witness:
  "fst (AssembleProvision regulatePoolSizes64 (exNode [(''share-region'', exShare)] [] True))
     = Returned (exResult [(''reserve'', [(- 1, 0)]), (''share'', [(- 1, 5)]), (''reclaim'', [(- 1, 6)])]) True None
   \<and> poolEntry (exResult [(''reserve'', [(- 1, 0)]), (''share'', [(- 1, 5)]), (''reclaim'', [(- 1, 6)])])
        PoolNameReserve FakedNUMAID = Some 0"
  using
    reserve_entry_unconditional
      [where regulate = regulatePoolSizes64
         and pa = "exNode [(''share-region'', exShare)] [] True"
         and res = "exResult [(''reserve'', [(- 1, 0)]), (''share'', [(- 1, 5)]), (''reclaim'', [(- 1, 6)])]"
         and boundUpper = True]
  by (simp add: model_defs example_defs)

end
